theory Spec2Isabelle
  imports Main
begin

section \<open>The host: class lists and calendar dates\<close>

text \<open>
  The program is the browser script \<^verbatim>\<open>web_version2/static/js/main.js\<close>. It runs on the
  DOM and on the JavaScript \<^verbatim>\<open>Date\<close> object; this section models the part of both that
  the script uses.

  A \<^verbatim>\<open>classList\<close> is an ordered set of tokens: \<^verbatim>\<open>add\<close> appends a token that is not yet
  there, \<^verbatim>\<open>remove\<close> deletes it, \<^verbatim>\<open>toggle(token, force)\<close> adds when \<^verbatim>\<open>force\<close> is true and
  removes otherwise.
\<close>

definition cl_contains :: "string list \<Rightarrow> string \<Rightarrow> bool" where
  "cl_contains cl t = (t \<in> set cl)"

definition cl_add :: "string list \<Rightarrow> string \<Rightarrow> string list" where
  "cl_add cl t = (if t \<in> set cl then cl else cl @ [t])"

definition cl_remove :: "string list \<Rightarrow> string \<Rightarrow> string list" where
  "cl_remove cl t = removeAll t cl"

definition cl_toggle :: "string list \<Rightarrow> string \<Rightarrow> bool \<Rightarrow> string list" where
  "cl_toggle cl t force = (if force then cl_add cl t else cl_remove cl t)"

text \<open>
  Dates follow the ECMAScript definitions, counted in whole days since 1 January 1970.
  The script builds every date at local midnight and reads it back in the same zone, so
  the time of day and the zone offset are left out. \<open>None\<close> stands for an invalid date,
  whose fields read as NaN.
\<close>

definition DaysInYear :: "int \<Rightarrow> int" where
  "DaysInYear y =
     (if y mod 4 \<noteq> 0 then 365
      else if y mod 100 \<noteq> 0 then 366
      else if y mod 400 \<noteq> 0 then 365
      else 366)"

definition DayFromYear :: "int \<Rightarrow> int" where
  "DayFromYear y =
     365 * (y - 1970) + (y - 1969) div 4 - (y - 1901) div 100 + (y - 1601) div 400"

lemma div_step:
  "0 < k \<Longrightarrow> (a + 1) div k = a div k + (if (a + 1) mod k = 0 then 1 else 0)" for a k :: int
proof -
  assume k: "0 < k"
  have r: "0 \<le> a mod k" "a mod k < k" using k by simp_all
  have e: "k * ((a + 1) div k) + (a + 1) mod k = k * (a div k) + a mod k + 1"
    using mult_div_mod_eq[of k "a + 1"] mult_div_mod_eq[of k a] by linarith
  have mm: "(a + 1) mod k = (a mod k + 1) mod k" by (simp add: mod_add_left_eq)
  show ?thesis
  proof (cases "a mod k + 1 = k")
    case True
    then have m: "(a + 1) mod k = 0" using mm by simp
    have "k * ((a + 1) div k) = k * (a div k) + k" using e m True by linarith
    also have "\<dots> = k * (a div k + 1)" by (simp add: algebra_simps)
    finally have "(a + 1) div k = a div k + 1" using k by simp
    then show ?thesis using m by simp
  next
    case False
    then have lt: "a mod k + 1 < k" using r by linarith
    then have m: "(a + 1) mod k = a mod k + 1" using mm r by simp
    then have "k * ((a + 1) div k) = k * (a div k)" using e by linarith
    then have "(a + 1) div k = a div k" using k by simp
    then show ?thesis using m r by simp
  qed
qed

lemma shift_mod: "k dvd c \<Longrightarrow> ((y - c) mod k = 0) = (y mod k = 0)" for y c k :: int
  by (simp add: dvd_eq_mod_eq_0 [symmetric] dvd_diff_left_iff)

lemma quot4: "(y - 1968) div 4 = (y - 1969) div 4 + (if y mod 4 = 0 then 1 else 0)" for y :: int
  using div_step[of 4 "y - 1969"] shift_mod[of 4 1968 y] by simp

lemma quot100:
  "(y - 1900) div 100 = (y - 1901) div 100 + (if y mod 100 = 0 then 1 else 0)" for y :: int
  using div_step[of 100 "y - 1901"] shift_mod[of 100 1900 y] by simp

lemma quot400:
  "(y - 1600) div 400 = (y - 1601) div 400 + (if y mod 400 = 0 then 1 else 0)" for y :: int
  using div_step[of 400 "y - 1601"] shift_mod[of 400 1600 y] by simp

lemma mod100_mod4: "y mod 100 = 0 \<Longrightarrow> y mod 4 = 0" for y :: int
proof -
  assume "y mod 100 = 0"
  then have "100 dvd y" by (simp add: dvd_eq_mod_eq_0)
  moreover have "(4::int) dvd 100" by simp
  ultimately have "4 dvd y" using dvd_trans by blast
  then show ?thesis by simp
qed

lemma mod400_mod100: "y mod 400 = 0 \<Longrightarrow> y mod 100 = 0" for y :: int
proof -
  assume "y mod 400 = 0"
  then have "400 dvd y" by (simp add: dvd_eq_mod_eq_0)
  moreover have "(100::int) dvd 400" by simp
  ultimately have "100 dvd y" using dvd_trans by blast
  then show ?thesis by simp
qed

lemma DayFromYear_next: "DayFromYear (y + 1) = DayFromYear y + DaysInYear y"
proof -
  define A where "A = (y - 1969) div 4"
  define B where "B = (y - 1901) div 100"
  define C where "C = (y - 1601) div 400"
  define L4 where "L4 = (y mod 4 = 0)"
  define L100 where "L100 = (y mod 100 = 0)"
  define L400 where "L400 = (y mod 400 = 0)"
  have a: "y + 1 - 1969 = y - 1968" "y + 1 - 1901 = y - 1900" "y + 1 - 1601 = y - 1600"
    "y + 1 - 1970 = y - 1969" by simp_all
  have l: "DayFromYear (y + 1) = 365 * (y - 1969) + (A + (if L4 then 1 else 0))
      - (B + (if L100 then 1 else 0)) + (C + (if L400 then 1 else 0))"
    unfolding DayFromYear_def a quot4 quot100 quot400 A_def B_def C_def L4_def L100_def L400_def ..
  have r: "DayFromYear y = 365 * (y - 1970) + A - B + C"
    unfolding DayFromYear_def A_def B_def C_def ..
  have d: "DaysInYear y =
      (if \<not> L4 then 365 else if \<not> L100 then 366 else if \<not> L400 then 365 else 366)"
    unfolding DaysInYear_def L4_def L100_def L400_def ..
  have i: "L100 \<longrightarrow> L4" "L400 \<longrightarrow> L100"
    unfolding L4_def L100_def L400_def using mod100_mod4[of y] mod400_mod100[of y] by blast+
  show ?thesis unfolding l r d using i by (cases L4; cases L100; cases L400) simp_all
qed

lemma DaysInYear_bounds: "365 \<le> DaysInYear y" "DaysInYear y \<le> 366"
  by (simp_all add: DaysInYear_def)

lemma DayFromYear_mono: "y \<le> y' \<Longrightarrow> DayFromYear y \<le> DayFromYear y'"
proof (induction y' rule: int_ge_induct)
  case base
  show ?case by simp
next
  case (step i)
  then show ?case using DayFromYear_next[of i] DaysInYear_bounds(1)[of i] by linarith
qed

lemma DayFromYear_strict: "y < y' \<Longrightarrow> DayFromYear y < DayFromYear y'"
  using DayFromYear_mono[of "y + 1" y'] DayFromYear_next[of y] DaysInYear_bounds(1)[of y]
  by linarith

text \<open>
  \<^verbatim>\<open>YearFromTime(t)\<close> is the largest year whose first day is not after \<open>t\<close>. It is
  computed by a search from an estimate: down to a year that has started, then up to the
  last such year.
\<close>

function year_down :: "int \<Rightarrow> int \<Rightarrow> int" where
  "year_down d y = (if d < DayFromYear y then year_down d (y - 1) else y)"
  by pat_completeness auto
termination
proof (relation "measure (\<lambda>(d, y). nat (DayFromYear y - d))")
  show "wf (measure (\<lambda>(d, y). nat (DayFromYear y - d)))" by simp
next
  fix d y :: int
  assume "d < DayFromYear y"
  then show "((d, y - 1), (d, y)) \<in> measure (\<lambda>(d, y). nat (DayFromYear y - d))"
    using DayFromYear_strict[of "y - 1" y] by simp
qed

function year_up :: "int \<Rightarrow> int \<Rightarrow> int" where
  "year_up d y = (if DayFromYear (y + 1) \<le> d then year_up d (y + 1) else y)"
  by pat_completeness auto
termination
proof (relation "measure (\<lambda>(d, y). nat (d + 1 - DayFromYear (y + 1)))")
  show "wf (measure (\<lambda>(d, y). nat (d + 1 - DayFromYear (y + 1))))" by simp
next
  fix d y :: int
  assume "DayFromYear (y + 1) \<le> d"
  then show "((d, y + 1), (d, y)) \<in> measure (\<lambda>(d, y). nat (d + 1 - DayFromYear (y + 1)))"
    using DayFromYear_strict[of "y + 1" "y + 1 + 1"] by simp
qed

declare year_down.simps [simp del] year_up.simps [simp del]

definition YearFromDay :: "int \<Rightarrow> int" where
  "YearFromDay d = year_up d (year_down d (1970 + d div 365))"

definition DayWithinYear :: "int \<Rightarrow> int" where
  "DayWithinYear d = d - DayFromYear (YearFromDay d)"

definition InLeapYear :: "int \<Rightarrow> int" where
  "InLeapYear d = (if DaysInYear (YearFromDay d) = 366 then 1 else 0)"

definition MonthFromDay :: "int \<Rightarrow> int" where
  "MonthFromDay d =
     (let w = DayWithinYear d; l = InLeapYear d in
      if w < 31 then 0
      else if w < 59 + l then 1
      else if w < 90 + l then 2
      else if w < 120 + l then 3
      else if w < 151 + l then 4
      else if w < 181 + l then 5
      else if w < 212 + l then 6
      else if w < 243 + l then 7
      else if w < 273 + l then 8
      else if w < 304 + l then 9
      else if w < 334 + l then 10
      else 11)"

definition DateFromDay :: "int \<Rightarrow> int" where
  "DateFromDay d =
     (let w = DayWithinYear d; l = InLeapYear d; m = MonthFromDay d in
      if m = 0 then w + 1
      else if m = 1 then w - 30
      else if m = 2 then w - 58 - l
      else if m = 3 then w - 89 - l
      else if m = 4 then w - 119 - l
      else if m = 5 then w - 150 - l
      else if m = 6 then w - 180 - l
      else if m = 7 then w - 211 - l
      else if m = 8 then w - 242 - l
      else if m = 9 then w - 272 - l
      else if m = 10 then w - 303 - l
      else w - 333 - l)"

definition WeekDay :: "int \<Rightarrow> int" where
  "WeekDay d = (d + 4) mod 7"

text \<open>The day of the year on which month \<open>mn\<close> (0 to 11) starts.\<close>

definition month_start :: "int \<Rightarrow> int \<Rightarrow> int" where
  "month_start mn l =
     (if mn = 0 then 0
      else if mn = 1 then 31
      else if mn = 2 then 59 + l
      else if mn = 3 then 90 + l
      else if mn = 4 then 120 + l
      else if mn = 5 then 151 + l
      else if mn = 6 then 181 + l
      else if mn = 7 then 212 + l
      else if mn = 8 then 243 + l
      else if mn = 9 then 273 + l
      else if mn = 10 then 304 + l
      else 334 + l)"

definition MakeDay :: "int \<Rightarrow> int \<Rightarrow> int \<Rightarrow> int" where
  "MakeDay year month date =
     (let ym = year + month div 12; mn = month mod 12 in
      DayFromYear ym + month_start mn (if DaysInYear ym = 366 then 1 else 0) + date - 1)"

text \<open>
  \<^verbatim>\<open>new Date(year, month, date)\<close>: a year from 0 to 99 means 1900 + year, and a time
  more than 100,000,000 days from the epoch is not a date.
\<close>

definition js_Date :: "int \<Rightarrow> int \<Rightarrow> int \<Rightarrow> int option" where
  "js_Date year month date =
     (let yr = (if 0 \<le> year \<and> year \<le> 99 then 1900 + year else year);
          day = MakeDay yr month date
      in if \<bar>day\<bar> \<le> 100000000 then Some day else None)"

definition getDate :: "int option \<Rightarrow> int option" where
  "getDate t = map_option DateFromDay t"

definition getDay :: "int option \<Rightarrow> int option" where
  "getDay t = map_option WeekDay t"

section \<open>The doctor page: calendar and drag selection\<close>

text \<open>
  A child of the calendar container: its class list and its \<^verbatim>\<open>data-day\<close> attribute. The
  script writes the day number into the attribute and reads it back with \<^verbatim>\<open>parseInt\<close>;
  a cell without the attribute reads as NaN. The visible label of a cell is not modelled.
\<close>

record element =
  classList :: "string list"
  dataset_day :: "int option"

datatype num = NaN | Num int

fun parseInt_day :: "int option \<Rightarrow> num" where
  "parseInt_day None = NaN"
| "parseInt_day (Some d) = Num d"

text \<open>
  \<^verbatim>\<open>Math.min\<close>, \<^verbatim>\<open>Math.max\<close> and the comparisons on numbers that may be NaN. The drag
  anchor is \<^verbatim>\<open>null\<close> outside a gesture, and \<^verbatim>\<open>null\<close> converts to 0.
\<close>

fun to_num :: "num option \<Rightarrow> num" where
  "to_num None = Num 0"
| "to_num (Some n) = n"

fun math_min :: "num \<Rightarrow> num \<Rightarrow> num" where
  "math_min (Num a) (Num b) = Num (min a b)"
| "math_min _ _ = NaN"

fun math_max :: "num \<Rightarrow> num \<Rightarrow> num" where
  "math_max (Num a) (Num b) = Num (max a b)"
| "math_max _ _ = NaN"

fun num_ge :: "num \<Rightarrow> num \<Rightarrow> bool" where
  "num_ge (Num a) (Num b) = (a \<ge> b)"
| "num_ge _ _ = False"

fun num_le :: "num \<Rightarrow> num \<Rightarrow> bool" where
  "num_le (Num a) (Num b) = (a \<le> b)"
| "num_le _ _ = False"

text \<open>
  The variables of \<^verbatim>\<open>initDoctorPage\<close>, the children of the calendar container, and the
  number of times \<^verbatim>\<open>addDragListeners\<close> has run. Each run registers a new
  \<^verbatim>\<open>mousedown\<close> and \<^verbatim>\<open>mouseover\<close> listener on the container and a new \<^verbatim>\<open>mouseup\<close>
  listener on the document; none is ever removed, and all of them share the variables.
\<close>

record doctor_page =
  currentDoctor :: "string option"
  currentYear :: int
  currentMonth :: int
  isDragging :: bool
  dragStartDay :: "num option"
  dragToggleState :: bool
  calendar :: "element list"
  listeners :: nat
  submit_disabled :: bool
  alert :: "string option"

text \<open>
  The page after \<^verbatim>\<open>initDoctorPage\<close>. The calendar container and the submit button
  start as the page's markup gives them, which is not part of the script; they are taken
  to be empty and enabled.
\<close>

definition initDoctorPage :: doctor_page where
  "initDoctorPage =
     \<lparr>currentDoctor = None, currentYear = 2025, currentMonth = 1, isDragging = False,
      dragStartDay = None, dragToggleState = False, calendar = [], listeners = 0,
      submit_disabled = False, alert = None\<rparr>"

definition header_cell :: element where
  "header_cell = \<lparr>classList = [''calendar-day'', ''header''], dataset_day = None\<rparr>"

definition other_month_cell :: element where
  "other_month_cell = \<lparr>classList = [''calendar-day'', ''other-month''], dataset_day = None\<rparr>"

definition day_cell :: "int list \<Rightarrow> int list \<Rightarrow> int \<Rightarrow> element" where
  "day_cell selectedDays holidays day =
     (let c0 = [''calendar-day'', ''available''];
          c1 = (if day \<in> set holidays then cl_add c0 ''holiday'' else c0);
          c2 = (if day \<in> set selectedDays then cl_add c1 ''selected'' else c1)
      in \<lparr>classList = c2, dataset_day = Some day\<rparr>)"

definition addDragListeners :: "doctor_page \<Rightarrow> doctor_page" where
  "addDragListeners s = s\<lparr>listeners := Suc (listeners s)\<rparr>"

text \<open>
  \<^verbatim>\<open>renderCalendar\<close>: seven header cells, one blank cell per weekday before the first
  of the month, one cell per day of the month. A loop bounded by NaN does not run.
\<close>

definition renderCalendar :: "int list \<Rightarrow> int list \<Rightarrow> doctor_page \<Rightarrow> doctor_page" where
  "renderCalendar selectedDays holidays s =
     (let daysInMonth = getDate (js_Date (currentYear s) (currentMonth s) 0);
          firstDayOfMonth = getDay (js_Date (currentYear s) (currentMonth s - 1) 1);
          headers = replicate 7 header_cell;
          blanks = (case firstDayOfMonth of
                      None \<Rightarrow> []
                    | Some f \<Rightarrow> replicate (nat f) other_month_cell);
          days = (case daysInMonth of
                    None \<Rightarrow> []
                  | Some n \<Rightarrow> map (day_cell selectedDays holidays) [1..n])
      in addDragListeners (s\<lparr>calendar := headers @ blanks @ days\<rparr>))"

text \<open>
  The reply of \<^verbatim>\<open>/api/schedule_data\<close>: the submissions by doctor, in the order of the
  object's keys, and the holidays of the month.
\<close>

record submission =
  days_off :: "int list"
  submitted :: bool

record schedule_response =
  submissions :: "(string \<times> submission) list"
  holidays :: "int list"

definition loadAndRenderCalendar :: "schedule_response \<Rightarrow> doctor_page \<Rightarrow> doctor_page" where
  "loadAndRenderCalendar data s =
     (case currentDoctor s of
        None \<Rightarrow> s
      | Some doc \<Rightarrow>
          if doc = [] then s
          else renderCalendar
                 (case map_of (submissions data) doc of
                    None \<Rightarrow> []
                  | Some sub \<Rightarrow> days_off sub)
                 (holidays data) s)"

text \<open>The two \<^verbatim>\<open>change\<close> handlers, each with the reply its fetch receives.\<close>

definition select_doctor :: "string \<Rightarrow> schedule_response \<Rightarrow> doctor_page \<Rightarrow> doctor_page" where
  "select_doctor doc data s =
     (if doc = [] then s\<lparr>currentDoctor := Some doc\<rparr>
      else loadAndRenderCalendar data (s\<lparr>currentDoctor := Some doc\<rparr>))"

definition select_month :: "int \<Rightarrow> int \<Rightarrow> schedule_response \<Rightarrow> doctor_page \<Rightarrow> doctor_page" where
  "select_month y m data s =
     loadAndRenderCalendar data (s\<lparr>currentYear := y, currentMonth := m\<rparr>)"

text \<open>
  The target of a pointer event inside the calendar container: one of its children, or the
  container itself, which is taken not to carry the class \<^verbatim>\<open>available\<close>.
\<close>

datatype event_target = Child nat | Container

definition mousedown_listener :: "event_target \<Rightarrow> doctor_page \<Rightarrow> doctor_page" where
  "mousedown_listener t s =
     (case t of
        Container \<Rightarrow> s
      | Child i \<Rightarrow>
          if i < length (calendar s) \<and> cl_contains (classList (calendar s ! i)) ''available''
          then
            (let target = calendar s ! i;
                 st = (\<not> cl_contains (classList target) ''selected'')
             in s\<lparr>isDragging := True,
                  dragStartDay := Some (parseInt_day (dataset_day target)),
                  dragToggleState := st,
                  calendar := (calendar s)
                    [i := target\<lparr>classList := cl_toggle (classList target) ''selected'' st\<rparr>]\<rparr>)
          else s)"

definition mark_selecting :: "num \<Rightarrow> num \<Rightarrow> element \<Rightarrow> element" where
  "mark_selecting start end' cell =
     (if cl_contains (classList cell) ''available''
      then
        (let day = parseInt_day (dataset_day cell) in
         if num_ge day start \<and> num_le day end'
         then cell\<lparr>classList := cl_add (classList cell) ''selecting''\<rparr>
         else cell\<lparr>classList := cl_remove (classList cell) ''selecting''\<rparr>)
      else cell)"

definition mouseover_listener :: "event_target \<Rightarrow> doctor_page \<Rightarrow> doctor_page" where
  "mouseover_listener t s =
     (case t of
        Container \<Rightarrow> s
      | Child i \<Rightarrow>
          if isDragging s \<and> i < length (calendar s)
             \<and> cl_contains (classList (calendar s ! i)) ''available''
          then
            (let currentDay = parseInt_day (dataset_day (calendar s ! i));
                 start = math_min (to_num (dragStartDay s)) currentDay;
                 end' = math_max (to_num (dragStartDay s)) currentDay
             in s\<lparr>calendar := map (mark_selecting start end') (calendar s)\<rparr>)
          else s)"

definition commit_cell :: "bool \<Rightarrow> element \<Rightarrow> element" where
  "commit_cell st cell =
     (if cl_contains (classList cell) ''selecting''
      then cell\<lparr>classList := cl_remove (cl_toggle (classList cell) ''selected'' st) ''selecting''\<rparr>
      else cell)"

definition mouseup_listener :: "doctor_page \<Rightarrow> doctor_page" where
  "mouseup_listener s =
     (if isDragging s
      then s\<lparr>isDragging := False,
             calendar := map (commit_cell (dragToggleState s)) (calendar s),
             dragStartDay := None\<rparr>
      else s)"

text \<open>
  An event runs every registered listener in turn. No listener changes the number of
  listeners.
\<close>

definition mousedown :: "event_target \<Rightarrow> doctor_page \<Rightarrow> doctor_page" where
  "mousedown t s = (mousedown_listener t ^^ listeners s) s"

definition mouseover :: "event_target \<Rightarrow> doctor_page \<Rightarrow> doctor_page" where
  "mouseover t s = (mouseover_listener t ^^ listeners s) s"

definition mouseup :: "doctor_page \<Rightarrow> doctor_page" where
  "mouseup s = (mouseup_listener ^^ listeners s) s"

text \<open>
  A gesture: pointer-down on a cell, pointer-enter on each target of a path, pointer-up.
  A click is the gesture with the empty path.
\<close>

definition drag :: "event_target \<Rightarrow> event_target list \<Rightarrow> doctor_page \<Rightarrow> doctor_page" where
  "drag anchor path s = mouseup (foldl (\<lambda>s' t. mouseover t s') (mousedown anchor s) path)"

definition click :: "event_target \<Rightarrow> doctor_page \<Rightarrow> doctor_page" where
  "click t s = drag t [] s"

text \<open>
  \<^verbatim>\<open>submitDaysOff\<close> up to its \<^verbatim>\<open>await\<close>, and from there to its end. The request either
  fails in transit, or its body is not a JSON object with properties, or it is an object
  with a status and possibly a message. The three texts shown to the user are the UTF-8
  bytes of the script's literals.
\<close>

datatype fetch_result = Rejected | Unreadable | Reply string "string option"

record days_off_request =
  doctor :: "string option"
  year :: int
  month :: int
  daysOff :: "num list"

definition submit_ok_text :: string where
  "submit_ok_text =
     [CHR 0xE9, CHR 0xA0, CHR 0x90, CHR 0xE4, CHR 0xBC, CHR 0x91, CHR 0xE6, CHR 0x97, CHR 0xA5,
      CHR 0xE6, CHR 0x9C, CHR 0x9F, CHR 0xE5, CHR 0xB7, CHR 0xB2, CHR 0xE6, CHR 0x88, CHR 0x90,
      CHR 0xE5, CHR 0x8A, CHR 0x9F, CHR 0xE6, CHR 0x8F, CHR 0x90, CHR 0xE4, CHR 0xBA, CHR 0xA4,
      CHR 0xEF, CHR 0xBC, CHR 0x81]"

definition submit_failed_text :: string where
  "submit_failed_text =
     [CHR 0xE6, CHR 0x8F, CHR 0x90, CHR 0xE4, CHR 0xBA, CHR 0xA4, CHR 0xE5, CHR 0xA4, CHR 0xB1,
      CHR 0xE6, CHR 0x95, CHR 0x97, CHR 0xEF, CHR 0xBC, CHR 0x9A]"

definition submit_error_text :: string where
  "submit_error_text =
     [CHR 0xE6, CHR 0x8F, CHR 0x90, CHR 0xE4, CHR 0xBA, CHR 0xA4, CHR 0xE6, CHR 0x99, CHR 0x82,
      CHR 0xE7, CHR 0x99, CHR 0xBC, CHR 0xE7, CHR 0x94, CHR 0x9F, CHR 0xE9, CHR 0x8C, CHR 0xAF,
      CHR 0xE8, CHR 0xAA, CHR 0xA4, CHR 0xE3, CHR 0x80, CHR 0x82]"

definition template_text :: "string option \<Rightarrow> string" where
  "template_text v = (case v of None \<Rightarrow> ''undefined'' | Some m \<Rightarrow> m)"

definition submitDaysOff_request :: "doctor_page \<Rightarrow> days_off_request" where
  "submitDaysOff_request s =
     \<lparr>doctor = currentDoctor s, year = currentYear s, month = currentMonth s,
      daysOff = map (\<lambda>el. parseInt_day (dataset_day el))
                  (filter (\<lambda>el. cl_contains (classList el) ''selected'') (calendar s))\<rparr>"

definition submitDaysOff_begin :: "doctor_page \<Rightarrow> doctor_page" where
  "submitDaysOff_begin s = s\<lparr>submit_disabled := True\<rparr>"

definition submitDaysOff_end :: "fetch_result \<Rightarrow> doctor_page \<Rightarrow> doctor_page" where
  "submitDaysOff_end r s =
     (let shown = (case r of
                     Reply status message \<Rightarrow>
                       if status = ''success'' then submit_ok_text
                       else submit_failed_text @ template_text message
                   | _ \<Rightarrow> submit_error_text)
      in s\<lparr>alert := Some shown, submit_disabled := False\<rparr>)"

text \<open>Everything else that can happen on the page while a submission is under way.\<close>

datatype doctor_event =
    Mousedown event_target
  | Mouseover event_target
  | Mouseup
  | SelectDoctor string schedule_response
  | SelectMonth int int schedule_response

fun doctor_step :: "doctor_page \<Rightarrow> doctor_event \<Rightarrow> doctor_page" where
  "doctor_step s (Mousedown t) = mousedown t s"
| "doctor_step s (Mouseover t) = mouseover t s"
| "doctor_step s Mouseup = mouseup s"
| "doctor_step s (SelectDoctor doc data) = select_doctor doc data s"
| "doctor_step s (SelectMonth y m data) = select_month y m data s"

section \<open>The admin page: submission status, scheduler run, results table\<close>

text \<open>
  The exceptions a handler of the admin page can end with: a property read on
  \<^verbatim>\<open>undefined\<close> or \<^verbatim>\<open>null\<close>, and a class token that \<^verbatim>\<open>classList.add\<close> refuses.
\<close>

datatype js_error = TypeError | SyntaxError | InvalidCharacterError

definition ascii_whitespace :: "char \<Rightarrow> bool" where
  "ascii_whitespace c = (c \<in> set [CHR 0x09, CHR 0x0A, CHR 0x0C, CHR 0x0D, CHR 0x20])"

text \<open>\<^verbatim>\<open>classList.add\<close> with a token that is not a literal of the script.\<close>

definition cl_add_checked :: "string list \<Rightarrow> string \<Rightarrow> js_error + string list" where
  "cl_add_checked cl t =
     (if t = [] then Inl SyntaxError
      else if list_ex ascii_whitespace t then Inl InvalidCharacterError
      else Inr (cl_add cl t))"

text \<open>
  The schedule part of the scheduler's result: the doctors, the area of each doctor
  (the field of \<^verbatim>\<open>doctor_info\<close> the table reads), the number of days, the holidays, the
  days off by doctor and the assigned area by doctor and day.
\<close>

record schedule_data =
  doctors :: "string list"
  doctor_info :: "string \<rightharpoonup> string"
  num_days :: int
  holidays :: "int list"
  days_off :: "string \<rightharpoonup> int list"
  schedule :: "string \<rightharpoonup> (int \<rightharpoonup> string)"

text \<open>The data of the terminal event \<^verbatim>\<open>DONE\<close>, as far as the script reads it.\<close>

record done_data =
  status :: string
  message :: "string option"
  payload :: "schedule_data option"
  final_scores :: "(string \<times> int) list option"

text \<open>A table cell, and the table: the days of the header row and the body rows.\<close>

record td =
  textContent :: string
  cell_classList :: "string list"

record schedule_table =
  head_days :: "int list"
  body :: "td list list"

datatype status_view = NoDoctors | AllSubmitted | Pending "string list"

text \<open>
  The variables of \<^verbatim>\<open>initAdminPage\<close> and the parts of the document its handlers write.
  Event streams are numbered in the order of their creation; \<open>open_streams\<close> are those
  not yet closed, and \<open>eventSource\<close> is the script's variable. The elapsed-time display
  and its interval timer are not modelled.
\<close>

record admin_page =
  adminYear :: int
  adminMonth :: int
  eventSource :: "nat option"
  open_streams :: "nat list"
  streams_created :: nat
  fullScheduleData :: "schedule_data option"
  isFirstLog :: bool
  log_output :: string
  runButton_disabled :: bool
  logCardBody_minimized :: bool
  toggleLogBtn_hidden :: bool
  resultsSection_hidden :: bool
  areaFilter :: string
  dateFilter :: string
  schedule_render_area :: "schedule_table option"
  statusList :: status_view

text \<open>The script's literals with characters outside ASCII, as UTF-8 bytes.\<close>

definition placeholder_text :: string where
  "placeholder_text =
     [CHR 0xE6, CHR 0xAD, CHR 0xA3, CHR 0xE5, CHR 0x9C, CHR 0xA8, CHR 0xE9, CHR 0x80, CHR 0xA3,
      CHR 0xE6, CHR 0x8E, CHR 0xA5, CHR 0xE5, CHR 0xBE, CHR 0x8C, CHR 0xE7, CHR 0xAB, CHR 0xAF,
      CHR 0xE6, CHR 0x8E, CHR 0x92, CHR 0xE7, CHR 0x8F, CHR 0xAD, CHR 0xE5, CHR 0xBC, CHR 0x95,
      CHR 0xE6, CHR 0x93, CHR 0x8E, CHR 0x2E, CHR 0x2E, CHR 0x2E]"

definition disconnected_text :: string where
  "disconnected_text =
     [CHR 0x0A, CHR 0xE8, CHR 0x88, CHR 0x87, CHR 0xE4, CHR 0xBC, CHR 0xBA, CHR 0xE6, CHR 0x9C,
      CHR 0x8D, CHR 0xE5, CHR 0x99, CHR 0xA8, CHR 0xE9, CHR 0x80, CHR 0xA3, CHR 0xE7, CHR 0xB7,
      CHR 0x9A, CHR 0xE4, CHR 0xB8, CHR 0xAD, CHR 0xE6, CHR 0x96, CHR 0xB7, CHR 0xE6, CHR 0x88,
      CHR 0x96, CHR 0xE7, CHR 0x99, CHR 0xBC, CHR 0xE7, CHR 0x94, CHR 0x9F, CHR 0xE9, CHR 0x8C,
      CHR 0xAF, CHR 0xE8, CHR 0xAA, CHR 0xA4, CHR 0xE3, CHR 0x80, CHR 0x82]"

definition failed_text :: string where
  "failed_text =
     [CHR 0x0A, CHR 0xE6, CHR 0x8E, CHR 0x92, CHR 0xE7, CHR 0x8F, CHR 0xAD, CHR 0xE5, CHR 0xA4,
      CHR 0xB1, CHR 0xE6, CHR 0x95, CHR 0x97, CHR 0x3A, CHR 0x20]"

definition dayoff_text :: string where
  "dayoff_text = [CHR 0xE9, CHR 0xA0, CHR 0x90, CHR 0xE4, CHR 0xBC, CHR 0x91]"

subsection \<open>The submission status\<close>

text \<open>
  \<^verbatim>\<open>updateSubmissionStatus\<close> from the moment its fetch has ended: with no reply the
  function is left by the exception and writes nothing more.
\<close>

definition updateSubmissionStatus :: "schedule_response option \<Rightarrow> admin_page \<Rightarrow> admin_page" where
  "updateSubmissionStatus reply s =
     (case reply of
        None \<Rightarrow> s
      | Some data \<Rightarrow>
          (let notSubmitted = filter (\<lambda>(doc, info). \<not> submitted info) (submissions data) in
           if length (submissions data) = 0
           then s\<lparr>statusList := NoDoctors, runButton_disabled := True\<rparr>
           else if length notSubmitted = 0
           then s\<lparr>statusList := AllSubmitted, runButton_disabled := False\<rparr>
           else s\<lparr>statusList := Pending (map fst notSubmitted), runButton_disabled := True\<rparr>))"

subsection \<open>The results table\<close>

fun filter_doctors :: "string \<Rightarrow> schedule_data \<Rightarrow> string list \<Rightarrow> js_error + string list" where
  "filter_doctors area data [] = Inr []"
| "filter_doctors area data (doc # ds) =
     (if area = ''all''
      then (case filter_doctors area data ds of Inl e \<Rightarrow> Inl e | Inr r \<Rightarrow> Inr (doc # r))
      else (case doctor_info data doc of
              None \<Rightarrow> Inl TypeError
            | Some a \<Rightarrow>
                (case filter_doctors area data ds of
                   Inl e \<Rightarrow> Inl e
                 | Inr r \<Rightarrow> Inr (if a = area then doc # r else r))))"

definition startDay :: "string \<Rightarrow> int" where
  "startDay dateRange =
     (if dateRange = ''1-10'' then 1
      else if dateRange = ''11-20'' then 11
      else if dateRange = ''21-end'' then 21
      else 1)"

definition endDay :: "string \<Rightarrow> schedule_data \<Rightarrow> int" where
  "endDay dateRange data =
     (if dateRange = ''1-10'' then 10
      else if dateRange = ''11-20'' then 20
      else num_days data)"

text \<open>
  The body of the inner loop of \<^verbatim>\<open>renderScheduleTable\<close>: first the holiday or weekend
  class, then the day-off mark or the assigned area. A value is truthy when it is there
  and, for a string, not empty.
\<close>

definition day_style :: "int \<Rightarrow> int \<Rightarrow> schedule_data \<Rightarrow> int \<Rightarrow> string list" where
  "day_style y m data day =
     (let dayOfWeek = getDay (js_Date y (m - 1) day) in
      if day \<in> set (holidays data) then [''cell-holiday'']
      else if dayOfWeek = Some 0 \<or> dayOfWeek = Some 6 then [''cell-weekend'']
      else [])"

definition is_day_off :: "schedule_data \<Rightarrow> string \<Rightarrow> int \<Rightarrow> bool" where
  "is_day_off data doc day =
     (case days_off data doc of None \<Rightarrow> False | Some offs \<Rightarrow> day \<in> set offs)"

definition assigned_area :: "schedule_data \<Rightarrow> string \<Rightarrow> int \<Rightarrow> string option" where
  "assigned_area data doc day =
     (case schedule data doc of
        None \<Rightarrow> None
      | Some row \<Rightarrow> (case row day of None \<Rightarrow> None | Some a \<Rightarrow> if a = [] then None else Some a))"

definition render_cell :: "int \<Rightarrow> int \<Rightarrow> schedule_data \<Rightarrow> string \<Rightarrow> int \<Rightarrow> js_error + td" where
  "render_cell y m data doc day =
     (let c1 = day_style y m data day in
      if is_day_off data doc day
      then Inr \<lparr>textContent = dayoff_text, cell_classList = cl_add c1 ''cell-dayoff''\<rparr>
      else (case assigned_area data doc day of
              None \<Rightarrow> Inr \<lparr>textContent = [], cell_classList = c1\<rparr>
            | Some area \<Rightarrow>
                (case cl_add_checked c1 (''cell-area-'' @ area) of
                   Inl e \<Rightarrow> Inl e
                 | Inr c2 \<Rightarrow> Inr \<lparr>textContent = area, cell_classList = c2\<rparr>)))"

text \<open>Running a loop body over a list until the first exception.\<close>

fun for_each :: "('a \<Rightarrow> js_error + 'b) \<Rightarrow> 'a list \<Rightarrow> js_error + 'b list" where
  "for_each f [] = Inr []"
| "for_each f (x # xs) =
     (case f x of
        Inl e \<Rightarrow> Inl e
      | Inr v \<Rightarrow> (case for_each f xs of Inl e \<Rightarrow> Inl e | Inr vs \<Rightarrow> Inr (v # vs)))"

definition render_row :: "int \<Rightarrow> int \<Rightarrow> schedule_data \<Rightarrow> int list \<Rightarrow> string \<Rightarrow> js_error + td list" where
  "render_row y m data days doc =
     (case for_each (render_cell y m data doc) days of
        Inl e \<Rightarrow> Inl e
      | Inr cells \<Rightarrow> Inr (\<lparr>textContent = doc, cell_classList = []\<rparr> # cells))"

definition renderScheduleTable :: "admin_page \<Rightarrow> schedule_data \<Rightarrow> js_error + schedule_table" where
  "renderScheduleTable s data =
     (let area = areaFilter s; dateRange = dateFilter s in
      case filter_doctors area data (doctors data) of
        Inl e \<Rightarrow> Inl e
      | Inr filteredDoctors \<Rightarrow>
          (let days = [startDay dateRange..endDay dateRange data] in
           case for_each (render_row (adminYear s) (adminMonth s) data days) filteredDoctors of
             Inl e \<Rightarrow> Inl e
           | Inr rows \<Rightarrow> Inr \<lparr>head_days = days, body = rows\<rparr>))"

text \<open>
  A handler that may be left by an exception yields the state at that point and the
  exception.
\<close>

definition applyTableFilters :: "admin_page \<Rightarrow> admin_page \<times> js_error option" where
  "applyTableFilters s =
     (case fullScheduleData s of
        None \<Rightarrow> (s, None)
      | Some data \<Rightarrow>
          (case renderScheduleTable s data of
             Inl e \<Rightarrow> (s, Some e)
           | Inr mainTable \<Rightarrow> (s\<lparr>schedule_render_area := Some mainTable\<rparr>, None)))"

definition displayResults :: "done_data \<Rightarrow> admin_page \<Rightarrow> admin_page \<times> js_error option" where
  "displayResults data s =
     (let s1 = s\<lparr>resultsSection_hidden := False\<rparr> in
      case final_scores data of
        None \<Rightarrow> (s1, Some TypeError)
      | Some scores \<Rightarrow> applyTableFilters s1)"

subsection \<open>The scheduler run\<close>

definition close_stream :: "nat \<Rightarrow> admin_page \<Rightarrow> admin_page" where
  "close_stream e s = s\<lparr>open_streams := removeAll e (open_streams s)\<rparr>"

definition resetRunButton :: "admin_page \<Rightarrow> admin_page" where
  "resetRunButton s = s\<lparr>runButton_disabled := False\<rparr>"

definition runScheduler :: "admin_page \<Rightarrow> admin_page" where
  "runScheduler s =
     (let s1 = (case eventSource s of None \<Rightarrow> s | Some e \<Rightarrow> close_stream e s);
          s2 = s1\<lparr>runButton_disabled := True, logCardBody_minimized := False,
                  log_output := placeholder_text, toggleLogBtn_hidden := True,
                  resultsSection_hidden := True, isFirstLog := True\<rparr>;
          new = streams_created s2
      in s2\<lparr>eventSource := Some new, open_streams := new # open_streams s2,
             streams_created := Suc new\<rparr>)"

definition handleLogMessage :: "string \<Rightarrow> admin_page \<Rightarrow> admin_page" where
  "handleLogMessage data s =
     (let s1 = (if isFirstLog s then s\<lparr>log_output := [], isFirstLog := False\<rparr> else s)
      in s1\<lparr>log_output := log_output s1 @ data @ [CHR 0x0A]\<rparr>)"

text \<open>
  The last two statements of \<^verbatim>\<open>handleDoneEvent\<close> and of the \<^verbatim>\<open>onerror\<close> handler, in
  their two orders. Both close the stream the variable \<^verbatim>\<open>eventSource\<close> holds; on
  \<^verbatim>\<open>null\<close> the call is an exception and ends the handler.
\<close>

definition reset_then_close :: "admin_page \<Rightarrow> admin_page" where
  "reset_then_close s =
     (let s1 = resetRunButton s in
      case eventSource s1 of None \<Rightarrow> s1 | Some e \<Rightarrow> close_stream e s1)"

definition close_then_reset :: "admin_page \<Rightarrow> admin_page" where
  "close_then_reset s =
     (case eventSource s of None \<Rightarrow> s | Some e \<Rightarrow> resetRunButton (close_stream e s))"

definition handleDoneEvent :: "done_data \<Rightarrow> admin_page \<Rightarrow> admin_page" where
  "handleDoneEvent data s =
     (if status data = ''success''
      then
        (case displayResults data (s\<lparr>fullScheduleData := payload data\<rparr>) of
           (s1, Some e) \<Rightarrow> s1
         | (s1, None) \<Rightarrow>
             reset_then_close (s1\<lparr>logCardBody_minimized := True, toggleLogBtn_hidden := False\<rparr>))
      else
        reset_then_close
          (s\<lparr>log_output := log_output s @ failed_text @ template_text (message data)\<rparr>))"

definition stream_onerror :: "admin_page \<Rightarrow> admin_page" where
  "stream_onerror s = close_then_reset (s\<lparr>log_output := log_output s @ disconnected_text\<rparr>)"

text \<open>
  What can happen on the page. A click reaches \<^verbatim>\<open>runScheduler\<close> only while the button
  is enabled; an event of a stream reaches its handler only while the stream is open.
\<close>

datatype admin_event =
    RunClick
  | LogMessage nat string
  | Done nat done_data
  | StreamError nat
  | StatusReply "schedule_response option"
  | ChooseMonth int int
  | ToggleLog
  | FilterChange string string

fun admin_step :: "admin_page \<Rightarrow> admin_event \<Rightarrow> admin_page" where
  "admin_step s RunClick = (if runButton_disabled s then s else runScheduler s)"
| "admin_step s (LogMessage n line) =
     (if n \<in> set (open_streams s) then handleLogMessage line s else s)"
| "admin_step s (Done n data) =
     (if n \<in> set (open_streams s) then handleDoneEvent data s else s)"
| "admin_step s (StreamError n) =
     (if n \<in> set (open_streams s) then stream_onerror s else s)"
| "admin_step s (StatusReply reply) = updateSubmissionStatus reply s"
| "admin_step s (ChooseMonth y m) = s\<lparr>adminYear := y, adminMonth := m\<rparr>"
| "admin_step s ToggleLog = s\<lparr>logCardBody_minimized := \<not> logCardBody_minimized s\<rparr>"
| "admin_step s (FilterChange area dateRange) =
     fst (applyTableFilters (s\<lparr>areaFilter := area, dateFilter := dateRange\<rparr>))"

text \<open>
  The page after \<^verbatim>\<open>initAdminPage\<close>: no stream yet, no result stored. The parts of
  the document start as the page's markup gives them, which is not part of the script;
  they are taken to be an empty log, a disabled run button and a hidden results section.
\<close>

definition initAdminPage :: admin_page where
  "initAdminPage =
     \<lparr>adminYear = 2025, adminMonth = 1, eventSource = None, open_streams = [],
      streams_created = 0, fullScheduleData = None, isFirstLog = True, log_output = [],
      runButton_disabled = True, logCardBody_minimized = False, toggleLogBtn_hidden = True,
      resultsSection_hidden = True, areaFilter = ''all'', dateFilter = ''all'',
      schedule_render_area = None, statusList = NoDoctors\<rparr>"

section \<open>Notions used in the statements\<close>

text \<open>Whether the \<open>k\<close>-th child of the calendar carries a class, and the Gregorian calendar.\<close>

definition has_class :: "doctor_page \<Rightarrow> nat \<Rightarrow> string \<Rightarrow> bool" where
  "has_class s k c = cl_contains (classList (calendar s ! k)) c"

definition day_cells :: "doctor_page \<Rightarrow> element list" where
  "day_cells s = filter (\<lambda>c. cl_contains (classList c) ''available'') (calendar s)"

definition leap_year :: "int \<Rightarrow> bool" where
  "leap_year y = (y mod 4 = 0 \<and> (y mod 100 \<noteq> 0 \<or> y mod 400 = 0))"

definition gregorian_days :: "int \<Rightarrow> int \<Rightarrow> int" where
  "gregorian_days y m =
     (if m = 2 then (if leap_year y then 29 else 28)
      else if m = 4 \<or> m = 6 \<or> m = 9 \<or> m = 11 then 30
      else 31)"

text \<open>
  The rest state of the widget: no gesture is under way and no cell carries the preview
  class. \<^verbatim>\<open>renderCalendar\<close> produces cells without the preview class, and a completed
  gesture removes it from every cell.
\<close>

definition idle :: "doctor_page \<Rightarrow> bool" where
  "idle s = (\<not> isDragging s
     \<and> list_all (\<lambda>c. \<not> cl_contains (classList c) ''selecting'') (calendar s))"

text \<open>The \<open>i\<close>-th child is a day cell for day \<open>d\<close>.\<close>

definition day_cell_at :: "doctor_page \<Rightarrow> nat \<Rightarrow> int \<Rightarrow> bool" where
  "day_cell_at s i d =
     (i < length (calendar s) \<and> cl_contains (classList (calendar s ! i)) ''available''
      \<and> dataset_day (calendar s ! i) = Some d)"

text \<open>
  A day cell whose day lies between the two ends of a gesture, and the effect of
  \<^verbatim>\<open>classList.toggle('selected', v)\<close> on a cell.
\<close>

definition in_range :: "int \<Rightarrow> int \<Rightarrow> element \<Rightarrow> bool" where
  "in_range a b c =
     (cl_contains (classList c) ''available''
      \<and> (case dataset_day c of None \<Rightarrow> False | Some d \<Rightarrow> min a b \<le> d \<and> d \<le> max a b))"

definition set_selected :: "bool \<Rightarrow> element \<Rightarrow> element" where
  "set_selected v c = c\<lparr>classList := cl_toggle (classList c) ''selected'' v\<rparr>"

text \<open>
  During a gesture a cell differs from what it was after pointer-down at most by the
  preview class, which only day cells receive.
\<close>

definition preview_of :: "element \<Rightarrow> element \<Rightarrow> bool" where
  "preview_of c0 c =
     (dataset_day c = dataset_day c0 \<and> \<not> cl_contains (classList c0) ''selecting''
      \<and> (classList c = classList c0
           \<or> cl_contains (classList c0) ''available'' \<and> classList c = classList c0 @ [''selecting'']))"

definition dragging_from :: "doctor_page \<Rightarrow> doctor_page \<Rightarrow> bool" where
  "dragging_from s1 s =
     (isDragging s \<and> dragStartDay s = dragStartDay s1 \<and> dragToggleState s = dragToggleState s1
      \<and> listeners s = listeners s1 \<and> list_all2 preview_of (calendar s1) (calendar s))"

text \<open>
  The state after pointer-down on the day cell \<open>i\<close> of day \<open>a\<close>, however many listeners
  ran: a gesture is under way from day \<open>a\<close>, and the calendar is the one before, except
  that the anchor cell carries the class \<^verbatim>\<open>selected\<close> exactly when the target value says
  so.
\<close>

definition anchored :: "doctor_page \<Rightarrow> nat \<Rightarrow> int \<Rightarrow> doctor_page \<Rightarrow> bool" where
  "anchored s i a t =
     (isDragging t \<and> dragStartDay t = Some (Num a) \<and> listeners t = listeners s
      \<and> length (calendar t) = length (calendar s)
      \<and> (\<forall>k < length (calendar s). k \<noteq> i \<longrightarrow> calendar t ! k = calendar s ! k)
      \<and> dataset_day (calendar t ! i) = Some a
      \<and> (\<forall>c. c \<noteq> ''selected'' \<longrightarrow>
            cl_contains (classList (calendar t ! i)) c = cl_contains (classList (calendar s ! i)) c)
      \<and> cl_contains (classList (calendar t ! i)) ''selected'' = dragToggleState t)"

text \<open>
  A page on which no run has been started, and the property every later state has: an
  open stream is the one the variable \<^verbatim>\<open>eventSource\<close> holds, and every stream ever
  created has a number below the next one.
\<close>

definition fresh_page :: "admin_page \<Rightarrow> bool" where
  "fresh_page s = (eventSource s = None \<and> open_streams s = [] \<and> streams_created s = 0)"

definition streams_ok :: "admin_page \<Rightarrow> bool" where
  "streams_ok s =
     (distinct (open_streams s)
      \<and> list_all (\<lambda>n. eventSource s = Some n \<and> n < streams_created s) (open_streams s))"

text \<open>
  A cell under a single order of precedence, as the specification words it, for
  comparison with \<open>render_cell\<close>: one classification per cell, the day-off mark before
  the holiday or weekend style, and that before the assigned area.
\<close>

definition cell_by_precedence :: "int \<Rightarrow> int \<Rightarrow> schedule_data \<Rightarrow> string \<Rightarrow> int \<Rightarrow> td" where
  "cell_by_precedence y m data doc day =
     (if is_day_off data doc day
      then \<lparr>textContent = dayoff_text, cell_classList = [''cell-dayoff'']\<rparr>
      else if day_style y m data day \<noteq> []
      then \<lparr>textContent = [], cell_classList = day_style y m data day\<rparr>
      else (case assigned_area data doc day of
              None \<Rightarrow> \<lparr>textContent = [], cell_classList = []\<rparr>
            | Some area \<Rightarrow> \<lparr>textContent = area, cell_classList = [''cell-area-'' @ area]\<rparr>))"

text \<open>
  An example result for January 2025: day 1 is a holiday, doctor A has days 1 and 2 off
  and works in ER on day 3, doctor B works in ICU on days 1 and 4.
\<close>

definition example_schedule :: schedule_data where
  "example_schedule =
     \<lparr>doctors = [''A'', ''B''],
      doctor_info = [''A'' \<mapsto> ''ER'', ''B'' \<mapsto> ''ICU''],
      num_days = 31,
      holidays = [1],
      days_off = [''A'' \<mapsto> [1, 2]],
      schedule = [''A'' \<mapsto> [3 \<mapsto> ''ER''], ''B'' \<mapsto> [1 \<mapsto> ''ICU'', 4 \<mapsto> ''ICU'']]\<rparr>"

text \<open>
  Example pages: a doctor chosen once (January 2025, one set of listeners), and the same
  page after the month was changed to February 2025 (two sets of listeners).
\<close>

definition example_reply :: "int list \<Rightarrow> int list \<Rightarrow> schedule_response" where
  "example_reply sel hol =
     \<lparr>submissions = [(''A'', \<lparr>submission.days_off = sel, submitted = True\<rparr>)],
      schedule_response.holidays = hol\<rparr>"

definition rendered_once :: "int list \<Rightarrow> int list \<Rightarrow> doctor_page" where
  "rendered_once sel hol = select_doctor ''A'' (example_reply sel hol) initDoctorPage"

definition rendered_twice :: "int list \<Rightarrow> int list \<Rightarrow> doctor_page" where
  "rendered_twice sel hol =
     select_month 2025 2 (example_reply sel hol) (rendered_once sel hol)"

section \<open>Properties of the doctor page\<close>

subsection \<open>The year of a day\<close>

lemma year_down_started: "DayFromYear (year_down d y) \<le> d"
proof (induction d y rule: year_down.induct)
  case (1 d y)
  then show ?case by (subst year_down.simps) simp
qed

lemma year_up_finds:
  "y0 \<le> y \<Longrightarrow> DayFromYear y \<le> d \<Longrightarrow> d < DayFromYear (y + 1) \<Longrightarrow> year_up d y0 = y"
proof (induction d y0 rule: year_up.induct)
  case (1 d y0)
  show ?case
  proof (cases "y0 = y")
    case True
    then show ?thesis using "1.prems" by (subst year_up.simps) simp
  next
    case False
    then have lt: "y0 + 1 \<le> y" using "1.prems" by simp
    then have "DayFromYear (y0 + 1) \<le> d" using DayFromYear_mono[OF lt] "1.prems" by linarith
    then show ?thesis using "1.IH" lt "1.prems" by (subst year_up.simps) simp
  qed
qed

lemma YearFromDay_unique:
  assumes "DayFromYear y \<le> d" "d < DayFromYear (y + 1)"
  shows "YearFromDay d = y"
proof -
  let ?y1 = "year_down d (1970 + d div 365)"
  have "DayFromYear ?y1 \<le> d" by (rule year_down_started)
  then have "DayFromYear ?y1 < DayFromYear (y + 1)" using assms by linarith
  then have "?y1 < y + 1" using DayFromYear_mono[of "y + 1" ?y1] by (cases "?y1 < y + 1") auto
  then show ?thesis unfolding YearFromDay_def using year_up_finds[of ?y1 y d] assms by simp
qed

lemma YearFromDay_offset:
  assumes "0 \<le> k" "k < DaysInYear y"
  shows "YearFromDay (DayFromYear y + k) = y"
  using assms DayFromYear_next[of y] by (intro YearFromDay_unique) simp_all

subsection \<open>The number of day cells\<close>

lemma DaysInYear_eq: "DaysInYear y = (if leap_year y then 366 else 365)"
proof -
  define L4 where "L4 = (y mod 4 = 0)"
  define L100 where "L100 = (y mod 100 = 0)"
  define L400 where "L400 = (y mod 400 = 0)"
  have d: "DaysInYear y =
      (if \<not> L4 then 365 else if \<not> L100 then 366 else if \<not> L400 then 365 else 366)"
    unfolding DaysInYear_def L4_def L100_def L400_def ..
  have g: "leap_year y = (L4 \<and> (\<not> L100 \<or> L400))"
    unfolding leap_year_def L4_def L100_def L400_def ..
  have i: "L100 \<longrightarrow> L4" "L400 \<longrightarrow> L100"
    unfolding L4_def L100_def L400_def using mod100_mod4[of y] mod400_mod100[of y] by blast+
  show ?thesis unfolding d g using i by (cases L4; cases L100; cases L400) simp_all
qed

lemma DaysInYear_leap: "(DaysInYear y = 366) = leap_year y"
  by (simp add: DaysInYear_eq)

lemma fields_offset:
  assumes "0 \<le> k" "k < DaysInYear y"
  shows "DayWithinYear (DayFromYear y + k) = k"
    and "InLeapYear (DayFromYear y + k) = (if leap_year y then 1 else 0)"
  using YearFromDay_offset[OF assms] by (simp_all add: DayWithinYear_def InLeapYear_def DaysInYear_leap)

lemma MakeDay_last:
  assumes "1 \<le> m" "m \<le> 12"
  shows "MakeDay y m 0 =
    DayFromYear y + (if m = 12 then DaysInYear y - 1
                     else month_start m (if leap_year y then 1 else 0) - 1)"
proof (cases "m = 12")
  case True
  then show ?thesis using DayFromYear_next[of y] by (simp add: MakeDay_def month_start_def)
next
  case False
  then have "m div 12 = 0" "m mod 12 = m" using assms by simp_all
  then show ?thesis using False by (simp add: MakeDay_def DaysInYear_leap)
qed

lemma DateFromDay_offset:
  assumes "0 \<le> k" "k < DaysInYear y"
  shows "DateFromDay (DayFromYear y + k) =
    (let l = (if leap_year y then 1 else 0) in
      if k < 31 then k + 1
      else if k < 59 + l then k - 30
      else if k < 90 + l then k - 58 - l
      else if k < 120 + l then k - 89 - l
      else if k < 151 + l then k - 119 - l
      else if k < 181 + l then k - 150 - l
      else if k < 212 + l then k - 180 - l
      else if k < 243 + l then k - 211 - l
      else if k < 273 + l then k - 242 - l
      else if k < 304 + l then k - 272 - l
      else if k < 334 + l then k - 303 - l
      else k - 333 - l)"
  unfolding DateFromDay_def MonthFromDay_def fields_offset[OF assms] by (simp add: Let_def)

lemma month_cases:
  "(1::int) \<le> m \<Longrightarrow> m \<le> 12 \<Longrightarrow>
   m = 1 \<or> m = 2 \<or> m = 3 \<or> m = 4 \<or> m = 5 \<or> m = 6 \<or> m = 7 \<or> m = 8 \<or> m = 9 \<or> m = 10
   \<or> m = 11 \<or> m = 12"
  by arith

lemma last_day_of_month:
  assumes "1 \<le> m" "m \<le> 12"
  shows "DateFromDay (MakeDay y m 0) = gregorian_days y m"
proof -
  have d12: "DateFromDay (DayFromYear y + (DaysInYear y - 1)) = 31"
    by (subst DateFromDay_offset) (simp_all add: DaysInYear_eq)
  have off: "0 \<le> k \<Longrightarrow> k < 365 \<Longrightarrow> DateFromDay (DayFromYear y + k) =
     (let l = (if leap_year y then 1 else 0) in
      if k < 31 then k + 1
      else if k < 59 + l then k - 30
      else if k < 90 + l then k - 58 - l
      else if k < 120 + l then k - 89 - l
      else if k < 151 + l then k - 119 - l
      else if k < 181 + l then k - 150 - l
      else if k < 212 + l then k - 180 - l
      else if k < 243 + l then k - 211 - l
      else if k < 273 + l then k - 242 - l
      else if k < 304 + l then k - 272 - l
      else if k < 334 + l then k - 303 - l
      else k - 333 - l)" for k
    using DaysInYear_bounds(1)[of y] by (intro DateFromDay_offset) simp_all
  from month_cases[OF assms] show ?thesis
    using d12 by (elim disjE) (simp_all add: MakeDay_last month_start_def gregorian_days_def off)
qed

lemma DayFromYear_100: "DayFromYear 100 = -683003" by (simp add: DayFromYear_def)
lemma DayFromYear_275760: "DayFromYear 275760 = 99999744" by (simp add: DayFromYear_def)

lemma js_Date_last_day:
  assumes "100 \<le> y" "y \<le> 275759" "1 \<le> m" "m \<le> 12"
  shows "js_Date y m 0 = Some (MakeDay y m 0)"
proof -
  have lo: "DayFromYear 100 \<le> DayFromYear y" using assms by (intro DayFromYear_mono)
  have "DayFromYear (y + 1) \<le> DayFromYear 275760" using assms by (intro DayFromYear_mono) simp
  then have hi: "DayFromYear y + DaysInYear y \<le> 99999744"
    using DayFromYear_next[of y] DayFromYear_275760 by simp
  have k: "0 \<le> month_start m l - 1 \<and> month_start m l - 1 < 365" if "l = 0 \<or> l = 1" for l
    using that month_cases[OF assms(3,4)] by (auto simp: month_start_def)
  have "- 100000000 \<le> MakeDay y m 0 \<and> MakeDay y m 0 \<le> 100000000"
    using lo hi DayFromYear_100 DaysInYear_bounds[of y] k[of "if leap_year y then 1 else 0"]
    unfolding MakeDay_last[OF assms(3,4)] by (cases "m = 12"; cases "leap_year y") simp_all
  then have "\<bar>MakeDay y m 0\<bar> \<le> 100000000" by linarith
  moreover have "(if 0 \<le> y \<and> y \<le> 99 then 1900 + y else y) = y" using assms by simp
  ultimately show ?thesis unfolding js_Date_def Let_def by simp
qed

lemma day_cell_available: "cl_contains (classList (day_cell sel hol d)) ''available''"
  by (simp add: day_cell_def cl_contains_def cl_add_def Let_def)

lemma day_cell_day: "dataset_day (day_cell sel hol d) = Some d"
  by (simp add: day_cell_def Let_def)

lemma day_cells_renderCalendar:
  "day_cells (renderCalendar sel hol s) =
     (case getDate (js_Date (currentYear s) (currentMonth s) 0) of
        None \<Rightarrow> []
      | Some n \<Rightarrow> map (day_cell sel hol) [1..n])"
proof -
  have h: "filter (\<lambda>c. cl_contains (classList c) ''available'') (replicate k header_cell) = []" for k
    by (simp add: header_cell_def cl_contains_def)
  have b: "filter (\<lambda>c. cl_contains (classList c) ''available'') (replicate k other_month_cell) = []"
    for k by (simp add: other_month_cell_def cl_contains_def)
  have d: "filter (\<lambda>c. cl_contains (classList c) ''available'') (map (day_cell sel hol) ds)
      = map (day_cell sel hol) ds" for ds
    by (simp add: filter_id_conv day_cell_available)
  show ?thesis
    unfolding day_cells_def renderCalendar_def addDragListeners_def Let_def
    by (simp add: h b d split: option.splits)
qed

text \<open>
  Claim C4. For every year from 100 to 275759 and every month from 1 to 12 (the page
  offers the years 2025 and 2026), \<^verbatim>\<open>renderCalendar\<close> produces exactly as many day cells
  as the month has days in the Gregorian calendar, and the cells carry the days 1, 2, ...
  in order.
\<close>

theorem renderCalendar_day_count:
  assumes "100 \<le> currentYear s" "currentYear s \<le> 275759"
    and "1 \<le> currentMonth s" "currentMonth s \<le> 12"
  shows "int (length (day_cells (renderCalendar sel hol s)))
           = gregorian_days (currentYear s) (currentMonth s)
       \<and> map dataset_day (day_cells (renderCalendar sel hol s))
           = map Some [1..gregorian_days (currentYear s) (currentMonth s)]"
proof -
  have g: "getDate (js_Date (currentYear s) (currentMonth s) 0)
      = Some (gregorian_days (currentYear s) (currentMonth s))"
    using js_Date_last_day[OF assms] last_day_of_month[OF assms(3,4)] by (simp add: getDate_def)
  have p: "0 \<le> gregorian_days (currentYear s) (currentMonth s)"
    by (simp add: gregorian_days_def)
  show ?thesis
    using p unfolding day_cells_renderCalendar g by (simp add: day_cell_day comp_def)
qed

theorem renderCalendar_day_count_witness:
  "int (length (day_cells (renderCalendar [] []
      (initDoctorPage\<lparr>currentYear := 2028, currentMonth := 2\<rparr>)))) = 29
   \<and> int (length (day_cells (renderCalendar [] []
      (initDoctorPage\<lparr>currentYear := 2025, currentMonth := 2\<rparr>)))) = 28
   \<and> int (length (day_cells (renderCalendar [] []
      (initDoctorPage\<lparr>currentYear := 2026, currentMonth := 2\<rparr>)))) = 28"
  using renderCalendar_day_count[of "initDoctorPage\<lparr>currentYear := 2028, currentMonth := 2\<rparr>" "[]" "[]"]
    renderCalendar_day_count[of "initDoctorPage\<lparr>currentYear := 2025, currentMonth := 2\<rparr>" "[]" "[]"]
    renderCalendar_day_count[of "initDoctorPage\<lparr>currentYear := 2026, currentMonth := 2\<rparr>" "[]" "[]"]
  by (simp add: gregorian_days_def leap_year_def)

subsection \<open>One gesture with one set of listeners\<close>

lemma preview_mark:
  assumes "preview_of c0 c"
  shows "preview_of c0 (mark_selecting st en c)"
  using assms
  by (auto simp: preview_of_def mark_selecting_def cl_contains_def cl_add_def cl_remove_def Let_def)

lemma preview_mark_final:
  assumes "preview_of c0 c"
  shows "mark_selecting (Num (min a b)) (Num (max a b)) c =
     (if in_range a b c0 then c0\<lparr>classList := classList c0 @ [''selecting'']\<rparr> else c0)"
  using assms
  by (cases "dataset_day c0")
     (auto simp: preview_of_def mark_selecting_def in_range_def cl_contains_def cl_add_def
       cl_remove_def Let_def)

lemma mouseover_listener_keeps:
  assumes "dragging_from s1 s"
  shows "dragging_from s1 (mouseover_listener t s)"
proof (cases t)
  case Container
  then show ?thesis using assms by (simp add: mouseover_listener_def)
next
  case (Child i)
  have "list_all2 preview_of (calendar s1) (map (mark_selecting st en) (calendar s))" for st en
    using assms unfolding dragging_from_def
    by (auto simp: list_all2_map2 preview_mark elim: list_all2_mono)
  then show ?thesis using assms Child
    by (simp add: mouseover_listener_def dragging_from_def Let_def)
qed

lemma funpow_one:
  "listeners s = 1 \<Longrightarrow> (f ^^ listeners s) s = f s" for f :: "doctor_page \<Rightarrow> doctor_page"
proof -
  assume a: "listeners s = 1"
  have "(f ^^ 1) s = f s" by simp
  then show ?thesis by (simp only: a)
qed

lemma preview_refl: "\<not> cl_contains (classList c) ''selecting'' \<Longrightarrow> preview_of c c"
  by (simp add: preview_of_def)

lemma set_selected_simps:
  "dataset_day (set_selected v c) = dataset_day c"
  "cl_contains (classList (set_selected v c)) ''available'' = cl_contains (classList c) ''available''"
  "cl_contains (classList (set_selected v c)) ''selecting'' = cl_contains (classList c) ''selecting''"
  "cl_contains (classList (set_selected v c)) ''holiday'' = cl_contains (classList c) ''holiday''"
  "cl_contains (classList (set_selected v c)) ''selected'' = v"
  "set_selected v (set_selected v c) = set_selected v c"
  by (auto simp: set_selected_def cl_toggle_def cl_add_def cl_remove_def cl_contains_def)

lemma cl_toggle_contains:
  "cl_contains (cl_toggle cl t b) u = (if u = t then b else cl_contains cl u)"
  by (auto simp: cl_toggle_def cl_add_def cl_remove_def cl_contains_def)

lemma mousedown_listener_start:
  assumes "idle s" "day_cell_at s i a"
  defines "v \<equiv> \<not> cl_contains (classList (calendar s ! i)) ''selected''"
  defines "s1 \<equiv> mousedown_listener (Child i) s"
  shows "calendar s1 = (calendar s)[i := set_selected v (calendar s ! i)]"
    and "dragStartDay s1 = Some (Num a)" and "dragToggleState s1 = v" and "isDragging s1"
    and "listeners s1 = listeners s" and "dragging_from s1 s1"
    and "submit_disabled s1 = submit_disabled s"
proof -
  show c: "calendar s1 = (calendar s)[i := set_selected v (calendar s ! i)]"
    using assms(2) unfolding s1_def v_def
    by (simp add: mousedown_listener_def day_cell_at_def set_selected_def Let_def)
  show "dragStartDay s1 = Some (Num a)" "dragToggleState s1 = v" "isDragging s1"
    "listeners s1 = listeners s" "submit_disabled s1 = submit_disabled s"
    using assms(2) unfolding s1_def v_def
    by (simp_all add: mousedown_listener_def day_cell_at_def Let_def)
  then have d: "isDragging s1" by simp
  have "list_all (\<lambda>c. \<not> cl_contains (classList c) ''selecting'') (calendar s1)"
    using assms(1,2) unfolding c idle_def day_cell_at_def
    by (auto simp: list_all_length nth_list_update set_selected_simps)
  then have "list_all2 preview_of (calendar s1) (calendar s1)"
    by (auto simp: list_all2_conv_all_nth list_all_length preview_refl)
  then show "dragging_from s1 s1" using d by (simp add: dragging_from_def)
qed

lemma mouseover_path_keeps:
  assumes "dragging_from s1 s" "listeners s1 = 1"
  shows "dragging_from s1 (foldl (\<lambda>s' t. mouseover t s') s path)"
  using assms(1)
proof (induction path arbitrary: s)
  case Nil
  then show ?case by simp
next
  case (Cons t path)
  have "listeners s = 1" using Cons.prems assms(2) by (simp add: dragging_from_def)
  then have "mouseover t s = mouseover_listener t s" unfolding mouseover_def by (rule funpow_one)
  then show ?case using Cons by (simp add: mouseover_listener_keeps)
qed

lemma mouseover_listener_final:
  assumes "dragging_from s1 s" "dragStartDay s1 = Some (Num a)" "day_cell_at s1 j b"
  shows "calendar (mouseover_listener (Child j) s) =
      map (\<lambda>c0. if in_range a b c0 then c0\<lparr>classList := classList c0 @ [''selecting'']\<rparr> else c0)
        (calendar s1)"
    and "dragToggleState (mouseover_listener (Child j) s) = dragToggleState s1"
    and "isDragging (mouseover_listener (Child j) s)"
    and "listeners (mouseover_listener (Child j) s) = listeners s1"
    and "submit_disabled (mouseover_listener (Child j) s) = submit_disabled s"
proof -
  have l2: "list_all2 preview_of (calendar s1) (calendar s)"
    using assms(1) by (simp add: dragging_from_def)
  then have len: "length (calendar s) = length (calendar s1)" by (simp add: list_all2_lengthD)
  have jl: "j < length (calendar s1)" using assms(3) by (simp add: day_cell_at_def)
  have pj: "preview_of (calendar s1 ! j) (calendar s ! j)" using l2 jl by (simp add: list_all2_nthD)
  have av: "cl_contains (classList (calendar s ! j)) ''available''"
    using pj assms(3) by (auto simp: preview_of_def day_cell_at_def cl_contains_def)
  have dj: "dataset_day (calendar s ! j) = Some b"
    using pj assms(3) by (simp add: preview_of_def day_cell_at_def)
  have st: "isDragging s" "dragStartDay s = Some (Num a)"
    using assms(1,2) by (simp_all add: dragging_from_def)
  have cal: "calendar (mouseover_listener (Child j) s) =
      map (mark_selecting (Num (min a b)) (Num (max a b))) (calendar s)"
    using st av dj jl len by (simp add: mouseover_listener_def Let_def)
  have "map (mark_selecting (Num (min a b)) (Num (max a b))) (calendar s) =
      map (\<lambda>c0. if in_range a b c0 then c0\<lparr>classList := classList c0 @ [''selecting'']\<rparr> else c0)
        (calendar s1)"
    using l2 by (induction rule: list_all2_induct) (simp_all add: preview_mark_final)
  then show "calendar (mouseover_listener (Child j) s) =
      map (\<lambda>c0. if in_range a b c0 then c0\<lparr>classList := classList c0 @ [''selecting'']\<rparr> else c0)
        (calendar s1)" using cal by simp
  show "dragToggleState (mouseover_listener (Child j) s) = dragToggleState s1"
    "isDragging (mouseover_listener (Child j) s)"
    "listeners (mouseover_listener (Child j) s) = listeners s1"
    "submit_disabled (mouseover_listener (Child j) s) = submit_disabled s"
    using assms(1) by (simp_all add: mouseover_listener_def dragging_from_def Let_def)
qed

lemma commit_marked:
  assumes "\<not> cl_contains (classList c0) ''selecting''"
  shows "commit_cell v (if in_range a b c0 then c0\<lparr>classList := classList c0 @ [''selecting'']\<rparr> else c0)
    = (if in_range a b c0 then set_selected v c0 else c0)"
  using assms
  by (auto simp: commit_cell_def set_selected_def cl_contains_def cl_toggle_def cl_add_def
      cl_remove_def)

lemma in_range_set_selected: "in_range a b (set_selected v c) = in_range a b c"
  by (simp add: in_range_def set_selected_simps)

lemma in_range_anchor:
  "day_cell_at s i a \<Longrightarrow> in_range a b (calendar s ! i)"
  by (simp add: day_cell_at_def in_range_def)

lemma in_range_target:
  "day_cell_at s j b \<Longrightarrow> in_range a b (calendar s ! j)"
  by (simp add: day_cell_at_def in_range_def)

lemma drag_once:
  fixes path :: "event_target list"
  assumes "listeners s = 1" "idle s" "day_cell_at s i a" "day_cell_at s j b"
  defines "v \<equiv> \<not> cl_contains (classList (calendar s ! i)) ''selected''"
  defines "s' \<equiv> drag (Child i) (path @ [Child j]) s"
  shows "calendar s' = map (\<lambda>c. if in_range a b c then set_selected v c else c) (calendar s)"
    and "idle s'" and "listeners s' = 1"
proof -
  define s1 where "s1 = mousedown_listener (Child i) s"
  define s2 where "s2 = foldl (\<lambda>s' t. mouseover t s') s1 path"
  define s3 where "s3 = mouseover_listener (Child j) s2"
  note md = mousedown_listener_start[OF assms(2,3), folded v_def s1_def]
  have l1: "listeners s1 = 1" using md(5) assms(1) by simp
  have m1: "mousedown (Child i) s = s1"
    unfolding mousedown_def s1_def using assms(1) by (rule funpow_one)
  have d2: "dragging_from s1 s2" unfolding s2_def using md(6) l1 by (rule mouseover_path_keeps)
  then have l2: "listeners s2 = 1" using l1 by (simp add: dragging_from_def)
  have m3: "mouseover (Child j) s2 = s3"
    unfolding mouseover_def s3_def using l2 by (rule funpow_one)
  have ij: "i < length (calendar s)" "j < length (calendar s)"
    using assms(3,4) by (simp_all add: day_cell_at_def)
  have tj: "day_cell_at s1 j b"
    using assms(3,4) ij unfolding day_cell_at_def md(1)
    by (cases "j = i") (simp_all add: set_selected_simps)
  note mo = mouseover_listener_final[OF d2 md(2) tj, folded s3_def]
  have l3: "listeners s3 = 1" using mo(4) l1 by simp
  have m4: "mouseup s3 = mouseup_listener s3"
    unfolding mouseup_def using l3 by (rule funpow_one)
  have s'_eq: "s' = mouseup_listener s3"
    unfolding s'_def drag_def foldl_append m1 using m3 m4 by (simp add: s2_def)
  have clean1: "\<not> cl_contains (classList c0) ''selecting''" if "c0 \<in> set (calendar s1)" for c0
  proof -
    have "list_all2 preview_of (calendar s1) (calendar s1)"
      using md(6) by (simp add: dragging_from_def)
    then show ?thesis using that
      by (auto simp: list_all2_conv_all_nth in_set_conv_nth preview_of_def)
  qed
  have c1: "calendar s' = map (\<lambda>c. if in_range a b c then set_selected v c else c) (calendar s1)"
    unfolding s'_eq using mo(1,2,3) md(3) clean1
    by (simp add: mouseup_listener_def commit_marked cong: map_cong)
  let ?f = "\<lambda>c. if in_range a b c then set_selected v c else c"
  have "map ?f (calendar s1) = (map ?f (calendar s))[i := ?f (set_selected v (calendar s ! i))]"
    unfolding md(1) by (simp add: map_update)
  also have "?f (set_selected v (calendar s ! i)) = ?f (calendar s ! i)"
    using in_range_anchor[OF assms(3), of b]
    by (simp add: in_range_set_selected set_selected_simps)
  also have "(map ?f (calendar s))[i := ?f (calendar s ! i)] = map ?f (calendar s)"
    using ij by (simp add: list_update_same_conv)
  finally show c: "calendar s' = map ?f (calendar s)" using c1 by simp
  have "\<not> cl_contains (classList c) ''selecting''" if "c \<in> set (calendar s)" for c
    using assms(2) that by (simp add: idle_def list_all_iff)
  then have "list_all (\<lambda>c. \<not> cl_contains (classList c) ''selecting'') (calendar s')"
    unfolding c by (auto simp: list_all_iff set_selected_simps)
  moreover have "\<not> isDragging s'" unfolding s'_eq using mo(3) by (simp add: mouseup_listener_def)
  ultimately show "idle s'" by (simp add: idle_def)
  show "listeners s' = 1" unfolding s'_eq using l3 mo(3) by (simp add: mouseup_listener_def)
qed

subsection \<open>One gesture with any number of sets of listeners\<close>

lemma anchored_first:
  assumes "day_cell_at s i a"
  shows "anchored s i a (mousedown_listener (Child i) s)"
  using assms
  by (simp add: anchored_def day_cell_at_def mousedown_listener_def Let_def cl_toggle_contains)

lemma anchored_again:
  assumes "day_cell_at s i a" "anchored s i a t"
  shows "anchored s i a (mousedown_listener (Child i) t)"
proof -
  have i: "i < length (calendar t)" "cl_contains (classList (calendar t ! i)) ''available''"
    using assms by (simp_all add: anchored_def day_cell_at_def)
  show ?thesis
    using assms i
    by (simp add: anchored_def day_cell_at_def mousedown_listener_def Let_def cl_toggle_contains)
qed

lemma anchored_funpow:
  assumes "day_cell_at s i a"
  shows "anchored s i a ((mousedown_listener (Child i) ^^ Suc n) s)"
  by (induction n) (simp_all add: anchored_first[OF assms] anchored_again[OF assms])

lemma anchored_mousedown:
  assumes "day_cell_at s i a" "0 < listeners s"
  shows "anchored s i a (mousedown (Child i) s)"
proof -
  obtain n where "listeners s = Suc n" using assms(2) by (cases "listeners s") simp_all
  then show ?thesis unfolding mousedown_def using anchored_funpow[OF assms(1), of n] by simp
qed

lemma anchored_clean:
  assumes "idle s" "anchored s i a t"
  shows "dragging_from t t"
proof -
  have "\<not> cl_contains (classList (calendar t ! k)) ''selecting''" if "k < length (calendar t)" for k
  proof (cases "k = i")
    case True
    have "\<not> cl_contains (classList (calendar s ! i)) ''selecting''"
      using assms that True by (simp add: idle_def list_all_length anchored_def)
    then show ?thesis using assms(2) True by (simp add: anchored_def)
  next
    case False
    then show ?thesis using assms that by (simp add: idle_def list_all_length anchored_def)
  qed
  then have "list_all2 preview_of (calendar t) (calendar t)"
    by (simp add: list_all2_conv_all_nth preview_refl)
  then show ?thesis using assms(2) by (simp add: dragging_from_def anchored_def)
qed

lemma anchored_in_range:
  assumes "anchored s i a t" "day_cell_at s i a" "k < length (calendar s)"
  shows "in_range a b (calendar t ! k) = in_range a b (calendar s ! k)"
  using assms by (cases "k = i") (simp_all add: anchored_def day_cell_at_def in_range_def)

lemma anchored_target:
  assumes "anchored s i a t" "day_cell_at s i a" "day_cell_at s j b"
  shows "day_cell_at t j b"
  using assms by (cases "j = i") (simp_all add: anchored_def day_cell_at_def)

lemma mouseover_funpow_keeps:
  "dragging_from t0 t \<Longrightarrow> dragging_from t0 ((mouseover_listener x ^^ n) t)"
  by (induction n) (simp_all add: mouseover_listener_keeps)

lemma mouseover_path_keeps_any:
  "dragging_from t0 t \<Longrightarrow> dragging_from t0 (foldl (\<lambda>s' x. mouseover x s') t path)"
proof (induction path arbitrary: t)
  case Nil
  then show ?case by simp
next
  case (Cons x path)
  have "dragging_from t0 (mouseover x t)"
    unfolding mouseover_def using Cons.prems by (rule mouseover_funpow_keeps)
  then show ?case using Cons.IH by simp
qed

lemma mouseup_listener_rest: "\<not> isDragging t \<Longrightarrow> (mouseup_listener ^^ n) t = t"
  by (induction n) (simp_all add: mouseup_listener_def)

lemma drag_any_listeners:
  fixes path :: "event_target list"
  assumes "0 < listeners s" "idle s" "day_cell_at s i a" "day_cell_at s j b"
  defines "t0 \<equiv> mousedown (Child i) s"
  defines "s' \<equiv> drag (Child i) (path @ [Child j]) s"
  shows "calendar s' =
           map (\<lambda>c. if in_range a b c then set_selected (dragToggleState t0) c else c) (calendar t0)"
    and "idle s'" and "listeners s' = listeners s"
proof -
  have an: "anchored s i a t0" unfolding t0_def using assms(3,1) by (rule anchored_mousedown)
  have d0: "dragging_from t0 t0" using assms(2) an by (rule anchored_clean)
  define t2 where "t2 = foldl (\<lambda>s' x. mouseover x s') t0 path"
  have d2: "dragging_from t0 t2" unfolding t2_def using d0 by (rule mouseover_path_keeps_any)
  have l0: "listeners t0 = listeners s" using an by (simp add: anchored_def)
  obtain m where m: "listeners s = Suc m" using assms(1) by (cases "listeners s") simp_all
  have l2: "listeners t2 = Suc m" using d2 l0 m by (simp add: dragging_from_def)
  define t2' where "t2' = (mouseover_listener (Child j) ^^ m) t2"
  have d2': "dragging_from t0 t2'" unfolding t2'_def using d2 by (rule mouseover_funpow_keeps)
  define t3 where "t3 = mouseover_listener (Child j) t2'"
  have m3: "mouseover (Child j) t2 = t3"
    unfolding mouseover_def l2 t3_def t2'_def by simp
  have st: "dragStartDay t0 = Some (Num a)" using an by (simp add: anchored_def)
  have tj: "day_cell_at t0 j b" using an assms(3,4) by (rule anchored_target)
  note mo = mouseover_listener_final[OF d2' st tj, folded t3_def]
  have l3: "listeners t3 = Suc m" using mo(4) l0 m by simp
  have "mouseup t3 = (mouseup_listener ^^ m) (mouseup_listener t3)"
    unfolding mouseup_def l3 by (simp add: funpow_swap1)
  moreover have "\<not> isDragging (mouseup_listener t3)" using mo(3) by (simp add: mouseup_listener_def)
  ultimately have m4: "mouseup t3 = mouseup_listener t3" by (simp add: mouseup_listener_rest)
  have s'_eq: "s' = mouseup_listener t3"
    unfolding s'_def drag_def foldl_append using m3 m4 by (simp add: t0_def t2_def)
  have clean0: "\<not> cl_contains (classList c0) ''selecting''" if "c0 \<in> set (calendar t0)" for c0
  proof -
    have "list_all2 preview_of (calendar t0) (calendar t0)" using d0 by (simp add: dragging_from_def)
    then show ?thesis using that
      by (auto simp: list_all2_conv_all_nth in_set_conv_nth preview_of_def)
  qed
  show c: "calendar s' =
      map (\<lambda>c. if in_range a b c then set_selected (dragToggleState t0) c else c) (calendar t0)"
    unfolding s'_eq using mo(1,2,3) clean0
    by (simp add: mouseup_listener_def commit_marked cong: map_cong)
  have "list_all (\<lambda>c. \<not> cl_contains (classList c) ''selecting'') (calendar s')"
    unfolding c using clean0 by (auto simp: list_all_iff set_selected_simps)
  moreover have "\<not> isDragging s'" unfolding s'_eq using mo(3) by (simp add: mouseup_listener_def)
  ultimately show "idle s'" by (simp add: idle_def)
  show "listeners s' = listeners s"
    unfolding s'_eq using l3 m mo(3) by (simp add: mouseup_listener_def)
qed

lemma drag_any_listeners_nth:
  fixes path :: "event_target list"
  assumes "0 < listeners s" "idle s" "day_cell_at s i a" "day_cell_at s j b"
    and "k < length (calendar s)"
  defines "v \<equiv> dragToggleState (mousedown (Child i) s)"
  defines "s' \<equiv> drag (Child i) (path @ [Child j]) s"
  shows "\<not> in_range a b (calendar s ! k) \<Longrightarrow> calendar s' ! k = calendar s ! k"
    and "in_range a b (calendar s ! k) \<Longrightarrow>
           has_class s' k c = (if c = ''selected'' then v else has_class s k c)"
proof -
  have an: "anchored s i a (mousedown (Child i) s)" using assms(3,1) by (rule anchored_mousedown)
  note c = drag_any_listeners(1)[OF assms(1-4), of path, folded s'_def v_def]
  have len: "length (calendar (mousedown (Child i) s)) = length (calendar s)"
    using an by (simp add: anchored_def)
  note ir = anchored_in_range[OF an assms(3,5), of b]
  have ii: "in_range a b (calendar s ! i)" using assms(3) by (rule in_range_anchor)
  show "calendar s' ! k = calendar s ! k" if "\<not> in_range a b (calendar s ! k)"
  proof -
    have "k \<noteq> i" using that ii by auto
    then have "calendar (mousedown (Child i) s) ! k = calendar s ! k"
      using an assms(5) by (simp add: anchored_def)
    then show ?thesis unfolding c using that assms(5) len ir by simp
  qed
  show "has_class s' k c = (if c = ''selected'' then v else has_class s k c)"
    if "in_range a b (calendar s ! k)"
  proof (cases "k = i")
    case False
    then have "calendar (mousedown (Child i) s) ! k = calendar s ! k"
      using an assms(5) by (simp add: anchored_def)
    then show ?thesis
      unfolding has_class_def c using that assms(5) len ir
      by (simp add: set_selected_def cl_toggle_contains)
  next
    case True
    have "cl_contains (classList (calendar (mousedown (Child i) s) ! i)) c
        = cl_contains (classList (calendar s ! i)) c" if "c \<noteq> ''selected''"
      using an that by (simp add: anchored_def)
    then show ?thesis
      unfolding has_class_def c using that(1) True assms(5) len ir
      by (simp add: set_selected_def cl_toggle_contains)
  qed
qed

lemma target_value_one_listener:
  assumes "listeners s = 1" "day_cell_at s i a"
  shows "dragToggleState (mousedown (Child i) s) = (\<not> has_class s i ''selected'')"
proof -
  have "mousedown (Child i) s = mousedown_listener (Child i) s"
    unfolding mousedown_def using assms(1) by (rule funpow_one)
  then show ?thesis
    using assms(2) by (simp add: mousedown_listener_def day_cell_at_def has_class_def Let_def)
qed

text \<open>
  The target value by the number of sets of listeners: each listener of pointer-down
  negates what the one before it left.
\<close>

lemma target_value_parity:
  assumes "day_cell_at s i a" "0 < listeners s"
  shows "dragToggleState (mousedown (Child i) s)
     = (if odd (listeners s) then \<not> has_class s i ''selected'' else has_class s i ''selected'')"
proof -
  have step: "dragToggleState (mousedown_listener (Child i) t) = (\<not> dragToggleState t)"
    if "anchored s i a t" for t
  proof -
    have "i < length (calendar t)" "cl_contains (classList (calendar t ! i)) ''available''"
      "cl_contains (classList (calendar t ! i)) ''selected'' = dragToggleState t"
      using that assms(1) by (simp_all add: anchored_def day_cell_at_def)
    then show ?thesis by (simp add: mousedown_listener_def Let_def)
  qed
  have first: "dragToggleState (mousedown_listener (Child i) s) = (\<not> has_class s i ''selected'')"
    using assms(1) by (simp add: mousedown_listener_def day_cell_at_def has_class_def Let_def)
  have "dragToggleState ((mousedown_listener (Child i) ^^ Suc n) s)
      = (if even n then \<not> has_class s i ''selected'' else has_class s i ''selected'')" for n
  proof (induction n)
    case 0
    then show ?case using first by simp
  next
    case (Suc n)
    have "anchored s i a ((mousedown_listener (Child i) ^^ Suc n) s)"
      using assms(1) by (rule anchored_funpow)
    then have "dragToggleState ((mousedown_listener (Child i) ^^ Suc (Suc n)) s)
        = (\<not> dragToggleState ((mousedown_listener (Child i) ^^ Suc n) s))"
      using step by simp
    then show ?case using Suc by simp
  qed
  moreover obtain n where "listeners s = Suc n" using assms(2) by (cases "listeners s") simp_all
  ultimately show ?thesis by (simp add: mousedown_def)
qed

subsection \<open>Drags across holidays, repeated drags, clicks\<close>

text \<open>
  What \<^verbatim>\<open>renderCalendar\<close> produces: a holiday cell is a day cell like any other, no cell
  carries the preview class, and one more set of listeners is registered.
\<close>

lemma day_cell_holiday:
  "cl_contains (classList (day_cell sel hol d)) ''holiday'' = (d \<in> set hol)"
  by (simp add: day_cell_def cl_contains_def cl_add_def Let_def)

lemma renderCalendar_listeners: "listeners (renderCalendar sel hol s) = Suc (listeners s)"
  by (simp add: renderCalendar_def addDragListeners_def Let_def)

lemma renderCalendar_idle:
  assumes "\<not> isDragging s"
  shows "idle (renderCalendar sel hol s)"
proof -
  have "\<not> cl_contains (classList (day_cell sel hol d)) ''selecting''" for d
    by (simp add: day_cell_def cl_contains_def cl_add_def Let_def)
  then show ?thesis
    using assms
    by (auto simp: idle_def renderCalendar_def addDragListeners_def Let_def list_all_iff
        header_cell_def other_month_cell_def cl_contains_def split: option.splits)
qed

lemma drag_once_nth:
  fixes path :: "event_target list"
  assumes "listeners s = 1" "idle s" "day_cell_at s i a" "day_cell_at s j b"
    and "n < length (calendar s)"
  shows "calendar (drag (Child i) (path @ [Child j]) s) ! n =
     (if in_range a b (calendar s ! n)
      then set_selected (\<not> has_class s i ''selected'') (calendar s ! n)
      else calendar s ! n)"
  using assms(5) unfolding drag_once(1)[OF assms(1-4)] has_class_def by simp

text \<open>
  Claim C1, as stated, fails: a holiday cell is rendered with the class \<^verbatim>\<open>available\<close>
  like every other day cell, so a drag across it changes it. In January 2025 with
  day 6 a holiday and nothing selected, the drag from day 5 (child 14) to day 10
  (child 19) selects day 6 (child 15).
\<close>

theorem holiday_unchanged_counterexample:
  "listeners (rendered_once [] [6]) = 1
   \<and> day_cell_at (rendered_once [] [6]) 14 5
   \<and> day_cell_at (rendered_once [] [6]) 19 10
   \<and> day_cell_at (rendered_once [] [6]) 15 6
   \<and> has_class (rendered_once [] [6]) 15 ''holiday''
   \<and> \<not> has_class (rendered_once [] [6]) 15 ''selected''
   \<and> has_class (drag (Child 14) [Child 19] (rendered_once [] [6])) 15 ''selected''"
  by code_simp

text \<open>
  Claim C1, amended. On a calendar at rest that carries the listeners of at least one
  render, a gesture from day \<open>a\<close> to day \<open>b\<close> gives every day cell whose day lies
  between them, a holiday cell included, the gesture's target value: the value of
  \<^verbatim>\<open>dragToggleState\<close> after pointer-down, which with one set of listeners is the
  negation of the anchor's state. The holiday cell stays a holiday cell, and every child
  of the calendar that is not a day cell of the range keeps its class list.
\<close>

theorem drag_sets_holiday_in_range:
  fixes path :: "event_target list"
  assumes "0 < listeners s" "idle s" "day_cell_at s i a" "day_cell_at s j b"
    and "day_cell_at s k h" "has_class s k ''holiday''" "min a b \<le> h" "h \<le> max a b"
  shows "has_class (drag (Child i) (path @ [Child j]) s) k ''selected''
           = dragToggleState (mousedown (Child i) s)
       \<and> has_class (drag (Child i) (path @ [Child j]) s) k ''holiday''
       \<and> (\<forall>n < length (calendar s).
             in_range a b (calendar s ! n) \<longrightarrow>
             has_class (drag (Child i) (path @ [Child j]) s) n ''selected''
               = dragToggleState (mousedown (Child i) s))
       \<and> (\<forall>n < length (calendar s).
             \<not> in_range a b (calendar s ! n) \<longrightarrow>
             calendar (drag (Child i) (path @ [Child j]) s) ! n = calendar s ! n)
       \<and> (listeners s = 1 \<longrightarrow>
             dragToggleState (mousedown (Child i) s) = (\<not> has_class s i ''selected''))"
proof -
  note out = drag_any_listeners_nth(1)[OF assms(1-4), of _ path]
  note ins = drag_any_listeners_nth(2)[OF assms(1-4), of _ path]
  have k: "k < length (calendar s)" "in_range a b (calendar s ! k)"
    using assms(5,7,8) by (simp_all add: day_cell_at_def in_range_def)
  have 1: "has_class (drag (Child i) (path @ [Child j]) s) k ''selected''
      = dragToggleState (mousedown (Child i) s)"
    using ins[OF k, of "''selected''"] by simp
  have 2: "has_class (drag (Child i) (path @ [Child j]) s) k ''holiday''"
    using ins[OF k, of "''holiday''"] assms(6) by simp
  have 3: "has_class (drag (Child i) (path @ [Child j]) s) n ''selected''
      = dragToggleState (mousedown (Child i) s)"
    if "n < length (calendar s)" "in_range a b (calendar s ! n)" for n
    using ins[OF that, of "''selected''"] by simp
  have 4: "dragToggleState (mousedown (Child i) s) = (\<not> has_class s i ''selected'')"
    if "listeners s = 1"
    using that assms(3) by (rule target_value_one_listener)
  show ?thesis using 1 2 3 4 out by blast
qed

theorem drag_sets_holiday_in_range_witness:
  "0 < listeners (rendered_once [] [6]) \<and> idle (rendered_once [] [6])
   \<and> day_cell_at (rendered_once [] [6]) 14 5 \<and> day_cell_at (rendered_once [] [6]) 19 10
   \<and> day_cell_at (rendered_once [] [6]) 15 6 \<and> has_class (rendered_once [] [6]) 15 ''holiday''
   \<and> has_class (drag (Child 14) ([Child 16] @ [Child 19]) (rendered_once [] [6])) 15 ''selected''
   \<and> calendar (drag (Child 14) ([Child 16] @ [Child 19]) (rendered_once [] [6])) ! 20
        = calendar (rendered_once [] [6]) ! 20"
proof -
  have h: "0 < listeners (rendered_once [] [6])" "idle (rendered_once [] [6])"
    "day_cell_at (rendered_once [] [6]) 14 5" "day_cell_at (rendered_once [] [6]) 19 10"
    "day_cell_at (rendered_once [] [6]) 15 6" "has_class (rendered_once [] [6]) 15 ''holiday''"
    "min 5 10 \<le> (6::int)" "(6::int) \<le> max 5 10"
    by code_simp+
  have u: "listeners (rendered_once [] [6]) = 1"
    "\<not> has_class (rendered_once [] [6]) 14 ''selected''"
    "20 < length (calendar (rendered_once [] [6]))"
    "\<not> in_range 5 10 (calendar (rendered_once [] [6]) ! 20)"
    by code_simp+
  show ?thesis
    using drag_sets_holiday_in_range[OF h, of "[Child 16]"] h(1-6) u by simp
qed

lemma day_cell_at_after:
  assumes "calendar s' = map (\<lambda>c. if in_range a b c then set_selected v c else c) (calendar s)"
    and "day_cell_at s i d"
  shows "day_cell_at s' i d"
  using assms(2) unfolding day_cell_at_def assms(1) by (simp add: set_selected_simps)

lemma set_selected_twice: "set_selected False (set_selected True c) = set_selected False c"
  by (simp add: set_selected_def cl_toggle_def cl_add_def cl_remove_def)

lemma set_selected_absent:
  "\<not> cl_contains (classList c) ''selected'' \<Longrightarrow> set_selected False c = c"
  by (simp add: set_selected_def cl_toggle_def cl_remove_def cl_contains_def)

text \<open>
  Claim C2, as stated, fails in its last part: the second drag deselects the whole range,
  so a day of the range that was selected before the first drag is not restored. In
  January 2025 with day 7 selected, two drags from day 5 (child 14) through days 6 to 10
  (children 15 to 19) leave day 7 (child 16) unselected.
\<close>

theorem second_drag_restores_counterexample:
  "listeners (rendered_once [7] []) = 1
   \<and> day_cell_at (rendered_once [7] []) 14 5
   \<and> \<not> has_class (rendered_once [7] []) 14 ''selected''
   \<and> day_cell_at (rendered_once [7] []) 19 10
   \<and> day_cell_at (rendered_once [7] []) 16 7
   \<and> has_class (rendered_once [7] []) 16 ''selected''
   \<and> \<not> has_class
         (drag (Child 14) [Child 15, Child 16, Child 17, Child 18, Child 19]
           (drag (Child 14) [Child 15, Child 16, Child 17, Child 18, Child 19]
             (rendered_once [7] []))) 16 ''selected''"
  by code_simp

text \<open>
  Claim C2, amended. On a calendar with one set of drag listeners, at rest, with day 5
  unselected: a drag from day 5 to day 10, along any path, selects every day cell from 5
  to 10 and changes nothing else; the same drag again deselects every day cell from 5 to
  10 and changes nothing else, so that the calendar is the original one with the days 5
  to 10 deselected. That is the original calendar exactly when no day from 5 to 10 was
  selected in it.
\<close>

theorem drag_5_to_10_twice:
  fixes p1 p2 :: "event_target list"
  assumes "listeners s = 1" "idle s" "day_cell_at s i 5" "\<not> has_class s i ''selected''"
    and "day_cell_at s j 10"
  defines "s1 \<equiv> drag (Child i) (p1 @ [Child j]) s"
  defines "s2 \<equiv> drag (Child i) (p2 @ [Child j]) s1"
  shows "calendar s1 = map (\<lambda>c. if in_range 5 10 c then set_selected True c else c) (calendar s)
       \<and> calendar s2 = map (\<lambda>c. if in_range 5 10 c then set_selected False c else c) (calendar s)
       \<and> (calendar s2 = calendar s)
           = list_all (\<lambda>c. in_range 5 10 c \<longrightarrow> \<not> cl_contains (classList c) ''selected'')
               (calendar s)"
proof -
  have v: "(\<not> cl_contains (classList (calendar s ! i)) ''selected'') = True"
    using assms(4) by (simp add: has_class_def)
  have c1: "calendar s1 = map (\<lambda>c. if in_range 5 10 c then set_selected True c else c) (calendar s)"
    unfolding s1_def drag_once(1)[OF assms(1,2,3,5)] v ..
  have r1: "listeners s1 = 1" "idle s1"
    unfolding s1_def by (rule drag_once(3)[OF assms(1,2,3,5)], rule drag_once(2)[OF assms(1,2,3,5)])
  have d1: "day_cell_at s1 i 5" "day_cell_at s1 j 10"
    using day_cell_at_after[OF c1] assms(3,5) by blast+
  have i: "i < length (calendar s)" "in_range 5 10 (calendar s ! i)"
    using assms(3) by (simp_all add: day_cell_at_def in_range_def)
  have v1: "(\<not> cl_contains (classList (calendar s1 ! i)) ''selected'') = False"
    unfolding c1 using i by (simp add: set_selected_simps)
  have "calendar s2 = map (\<lambda>c. if in_range 5 10 c then set_selected False c else c) (calendar s1)"
    unfolding s2_def drag_once(1)[OF r1 d1] v1 ..
  then have c2: "calendar s2 = map (\<lambda>c. if in_range 5 10 c then set_selected False c else c) (calendar s)"
    unfolding c1 by (simp add: in_range_set_selected set_selected_twice)
  have e: "(set_selected False c = c) = (\<not> cl_contains (classList c) ''selected'')" for c
  proof
    assume "set_selected False c = c"
    then have "classList (set_selected False c) = classList c" by simp
    then have "removeAll ''selected'' (classList c) = classList c"
      by (simp add: set_selected_def cl_toggle_def cl_remove_def)
    then have "set (classList c) - {''selected''} = set (classList c)"
      by (metis set_removeAll)
    then show "\<not> cl_contains (classList c) ''selected''" by (auto simp: cl_contains_def)
  qed (rule set_selected_absent)
  have c3: "(calendar s2 = calendar s)
      = list_all (\<lambda>c. in_range 5 10 c \<longrightarrow> \<not> cl_contains (classList c) ''selected'') (calendar s)"
  proof -
    have m: "(map f xs = xs) = (\<forall>x\<in>set xs. f x = x)" for f :: "element \<Rightarrow> element" and xs
      using map_eq_conv[of f xs id] by simp
    show ?thesis unfolding c2 m list_all_iff using e by auto
  qed
  show ?thesis using c1 c2 c3 by blast
qed

theorem drag_5_to_10_twice_witness:
  "listeners (rendered_once [3] [6]) = 1 \<and> idle (rendered_once [3] [6])
   \<and> day_cell_at (rendered_once [3] [6]) 14 5 \<and> \<not> has_class (rendered_once [3] [6]) 14 ''selected''
   \<and> day_cell_at (rendered_once [3] [6]) 19 10
   \<and> calendar (drag (Child 14) ([Child 15, Child 16] @ [Child 19]) (rendered_once [3] [6]))
      = map (\<lambda>c. if in_range 5 10 c then set_selected True c else c)
          (calendar (rendered_once [3] [6]))
   \<and> calendar (drag (Child 14) ([Child 18] @ [Child 19])
        (drag (Child 14) ([Child 15, Child 16] @ [Child 19]) (rendered_once [3] [6])))
      = calendar (rendered_once [3] [6])"
proof -
  have h: "listeners (rendered_once [3] [6]) = 1" "idle (rendered_once [3] [6])"
    "day_cell_at (rendered_once [3] [6]) 14 5" "\<not> has_class (rendered_once [3] [6]) 14 ''selected''"
    "day_cell_at (rendered_once [3] [6]) 19 10"
    by code_simp+
  have u: "list_all (\<lambda>c. in_range 5 10 c \<longrightarrow> \<not> cl_contains (classList c) ''selected'')
      (calendar (rendered_once [3] [6]))"
    by code_simp
  show ?thesis
    using drag_5_to_10_twice[OF h, of "[Child 15, Child 16]" "[Child 18]"] h u by blast
qed

text \<open>
  With one set of listeners a click toggles the cell it hits and nothing else.
\<close>

lemma click_one_listener:
  assumes "listeners s = 1" "idle s" "day_cell_at s i a"
  shows "calendar (click (Child i) s) =
     (calendar s)[i := set_selected (\<not> has_class s i ''selected'') (calendar s ! i)]"
proof -
  define s1 where "s1 = mousedown_listener (Child i) s"
  note md = mousedown_listener_start[OF assms(2,3), folded s1_def]
  have m1: "mousedown (Child i) s = s1"
    unfolding mousedown_def s1_def using assms(1) by (rule funpow_one)
  have "listeners s1 = 1" using md(5) assms(1) by simp
  then have m2: "mouseup s1 = mouseup_listener s1" unfolding mouseup_def by (rule funpow_one)
  have "list_all2 preview_of (calendar s1) (calendar s1)" using md(6) by (simp add: dragging_from_def)
  then have "\<forall>c\<in>set (calendar s1). \<not> cl_contains (classList c) ''selecting''"
    by (auto simp: list_all2_conv_all_nth in_set_conv_nth preview_of_def)
  then have "map (commit_cell v) (calendar s1) = calendar s1" for v
    by (simp add: map_idI commit_cell_def)
  then have "calendar (mouseup_listener s1) = calendar s1"
    by (simp add: mouseup_listener_def)
  then show ?thesis
    unfolding click_def drag_def using m1 m2 md(1) by (simp add: has_class_def)
qed

text \<open>
  With two sets of listeners a click changes no class of any cell.
\<close>

lemma click_two_listeners:
  assumes "listeners s = 2" "idle s" "day_cell_at s i a" "n < length (calendar s)"
  shows "has_class (click (Child i) s) n c = has_class s n c"
proof -
  define v where "v = (\<not> cl_contains (classList (calendar s ! i)) ''selected'')"
  define s2 where "s2 = mousedown_listener (Child i) (mousedown_listener (Child i) s)"
  have i: "i < length (calendar s)" "cl_contains (classList (calendar s ! i)) ''available''"
    using assms(3) by (simp_all add: day_cell_at_def)
  have two: "(f ^^ listeners t) t = f (f t)" if "listeners t = 2"
    for f :: "doctor_page \<Rightarrow> doctor_page" and t
    using that by (simp add: numeral_2_eq_2)
  have md: "mousedown (Child i) s = s2"
    unfolding mousedown_def s2_def using assms(1) by (rule two)
  have c2: "calendar s2 = (calendar s)[i := set_selected (\<not> v) (set_selected v (calendar s ! i))]"
    and l2: "listeners s2 = 2" and d2: "isDragging s2"
    unfolding s2_def v_def using i assms(1)
    by (simp_all add: mousedown_listener_def Let_def set_selected_def cl_toggle_contains)
  have clean: "\<not> cl_contains (classList x) ''selecting''" if "x \<in> set (calendar s2)" for x
  proof -
    have "list_all (\<lambda>y. \<not> cl_contains (classList y) ''selecting'') (calendar s2)"
      using assms(2) i unfolding c2 idle_def
      by (auto simp: list_all_length nth_list_update set_selected_simps)
    then show ?thesis using that by (simp add: list_all_iff)
  qed
  then have "map (commit_cell b) (calendar s2) = calendar s2" for b
    by (simp add: map_idI commit_cell_def)
  then have u1: "calendar (mouseup_listener s2) = calendar s2"
    "\<not> isDragging (mouseup_listener s2)"
    using d2 by (simp_all add: mouseup_listener_def)
  have "mouseup s2 = mouseup_listener (mouseup_listener s2)"
    unfolding mouseup_def using l2 by (rule two)
  then have "calendar (mouseup s2) = calendar s2"
    using u1 by (simp add: mouseup_listener_def[of "mouseup_listener s2"])
  then have "calendar (click (Child i) s) = calendar s2"
    by (simp add: click_def drag_def md)
  moreover have "cl_contains (classList (set_selected (\<not> v) (set_selected v x))) c
      = cl_contains (classList x) c" if "v = (\<not> cl_contains (classList x) ''selected'')" for x
    using that
    by (auto simp: set_selected_def cl_toggle_def cl_add_def cl_remove_def cl_contains_def)
  ultimately show ?thesis
    using assms(4) i unfolding has_class_def c2 v_def by (cases "n = i") simp_all
qed

text \<open>
  Claim C3: a single click toggles exactly the day it hits. That holds with one set of
  listeners, but \<^verbatim>\<open>renderCalendar\<close> registers a further set at every call. With two
  sets, pointer-down runs two listeners: the first toggles the cell and the second toggles
  it back. After the doctor was chosen and the month changed to February 2025, a click on
  the unselected day 5 (child 17) leaves it unselected.
\<close>

theorem click_after_second_render:
  "listeners (rendered_twice [] []) = 2
   \<and> idle (rendered_twice [] [])
   \<and> day_cell_at (rendered_twice [] []) 17 5
   \<and> \<not> has_class (rendered_twice [] []) 17 ''selected''
   \<and> \<not> has_class (click (Child 17) (rendered_twice [] [])) 17 ''selected''
   \<and> calendar (click (Child 17) (rendered_twice [] [])) = calendar (rendered_twice [] [])"
  by code_simp

subsection \<open>Submitting the days off\<close>

lemma funpow_keeps:
  assumes "\<And>s. P (f s) = P s"
  shows "P ((f ^^ n) s) = P s"
  by (induction n) (simp_all add: assms)

lemma listeners_keep_submit:
  "submit_disabled (mousedown_listener t s) = submit_disabled s"
  "submit_disabled (mouseover_listener t s) = submit_disabled s"
  "submit_disabled (mouseup_listener s) = submit_disabled s"
  by (simp_all add: mousedown_listener_def mouseover_listener_def mouseup_listener_def Let_def
      split: event_target.splits)

lemma render_keeps_submit:
  "submit_disabled (renderCalendar sel hol s) = submit_disabled s"
  by (simp add: renderCalendar_def addDragListeners_def Let_def)

lemma doctor_step_keeps_submit: "submit_disabled (doctor_step s e) = submit_disabled s"
proof (cases e)
  case (Mousedown t)
  then show ?thesis
    by (simp add: mousedown_def funpow_keeps[where P = submit_disabled] listeners_keep_submit)
next
  case (Mouseover t)
  then show ?thesis
    by (simp add: mouseover_def funpow_keeps[where P = submit_disabled] listeners_keep_submit)
next
  case Mouseup
  then show ?thesis
    by (simp add: mouseup_def funpow_keeps[where P = submit_disabled] listeners_keep_submit)
next
  case (SelectDoctor doc data)
  then show ?thesis
    by (simp add: select_doctor_def loadAndRenderCalendar_def render_keeps_submit
        split: option.splits)
next
  case (SelectMonth y m data)
  then show ?thesis
    by (simp add: select_month_def loadAndRenderCalendar_def render_keeps_submit
        split: option.splits)
qed

lemma doctor_steps_keep_submit:
  "submit_disabled (foldl doctor_step s evs) = submit_disabled s"
  by (induction evs arbitrary: s) (simp_all add: doctor_step_keeps_submit)

text \<open>
  Claim C7. \<^verbatim>\<open>submitDaysOff\<close> disables the submit button before its request; whatever
  else happens on the page while the request is under way, the button stays disabled; and
  when the request ends, whether with a reply that says success, a reply that says
  anything else, an unreadable body or a failure in transit, the button is enabled again.
\<close>

theorem submit_button_disabled_then_enabled:
  "submit_disabled (submitDaysOff_begin s)
   \<and> submit_disabled (foldl doctor_step (submitDaysOff_begin s) evs)
   \<and> \<not> submit_disabled (submitDaysOff_end r (foldl doctor_step (submitDaysOff_begin s) evs))"
  by (simp add: doctor_steps_keep_submit submitDaysOff_begin_def submitDaysOff_end_def Let_def)

theorem submit_button_disabled_then_enabled_witness:
  "submit_disabled (foldl doctor_step (submitDaysOff_begin (rendered_once [] [])) [Mousedown (Child 14), Mouseup])
   \<and> \<not> submit_disabled (submitDaysOff_end Rejected
        (foldl doctor_step (submitDaysOff_begin (rendered_once [] [])) [Mousedown (Child 14), Mouseup]))
   \<and> \<not> submit_disabled (submitDaysOff_end (Reply ''error'' (Some ''full''))
        (foldl doctor_step (submitDaysOff_begin (rendered_once [] [])) [Mousedown (Child 14), Mouseup]))
   \<and> alert (submitDaysOff_end (Reply ''error'' (Some ''full'')) (submitDaysOff_begin (rendered_once [] [])))
        = Some (submit_failed_text @ ''full'')"
  using submit_button_disabled_then_enabled[of "rendered_once [] []" "[Mousedown (Child 14), Mouseup]" Rejected]
    submit_button_disabled_then_enabled[of "rendered_once [] []" "[Mousedown (Child 14), Mouseup]"
      "Reply ''error'' (Some ''full'')"]
  by (simp add: submitDaysOff_end_def template_text_def)

section \<open>Properties of the admin page\<close>

subsection \<open>The run button after a status refresh\<close>

text \<open>
  Claim C10. After \<^verbatim>\<open>updateSubmissionStatus\<close> has received the submission data, the run
  button is enabled if and only if the data names at least one doctor and every doctor in
  it is marked as submitted; otherwise the button is disabled.
\<close>

theorem run_button_enabled_iff_all_submitted:
  "(\<not> runButton_disabled (updateSubmissionStatus (Some data) s))
     = (submissions data \<noteq> [] \<and> list_all (\<lambda>(doc, info). submitted info) (submissions data))"
proof (cases "submissions data = []")
  case True
  then show ?thesis by (simp add: updateSubmissionStatus_def)
next
  case False
  have "(filter (\<lambda>(doc, info). \<not> submitted info) (submissions data) = [])
      = list_all (\<lambda>(doc, info). submitted info) (submissions data)"
    by (auto simp: filter_empty_conv list_all_iff)
  then show ?thesis using False by (simp add: updateSubmissionStatus_def Let_def)
qed

theorem run_button_enabled_iff_all_submitted_witness:
  "\<not> runButton_disabled (updateSubmissionStatus
       (Some \<lparr>submissions = [(''A'', \<lparr>submission.days_off = [3], submitted = True\<rparr>),
                              (''B'', \<lparr>submission.days_off = [], submitted = True\<rparr>)],
              schedule_response.holidays = [1]\<rparr>) initAdminPage)
   \<and> runButton_disabled (updateSubmissionStatus
       (Some \<lparr>submissions = [(''A'', \<lparr>submission.days_off = [3], submitted = True\<rparr>),
                              (''B'', \<lparr>submission.days_off = [], submitted = False\<rparr>)],
              schedule_response.holidays = [1]\<rparr>) (resetRunButton initAdminPage))
   \<and> runButton_disabled (updateSubmissionStatus
       (Some \<lparr>submissions = [], schedule_response.holidays = [1]\<rparr>) (resetRunButton initAdminPage))"
  using run_button_enabled_iff_all_submitted[of
      "\<lparr>submissions = [(''A'', \<lparr>submission.days_off = [3], submitted = True\<rparr>),
                        (''B'', \<lparr>submission.days_off = [], submitted = True\<rparr>)],
        schedule_response.holidays = [1]\<rparr>" initAdminPage]
    run_button_enabled_iff_all_submitted[of
      "\<lparr>submissions = [(''A'', \<lparr>submission.days_off = [3], submitted = True\<rparr>),
                        (''B'', \<lparr>submission.days_off = [], submitted = False\<rparr>)],
        schedule_response.holidays = [1]\<rparr>" "resetRunButton initAdminPage"]
    run_button_enabled_iff_all_submitted[of
      "\<lparr>submissions = [], schedule_response.holidays = [1]\<rparr>" "resetRunButton initAdminPage"]
  by simp

subsection \<open>The log of a run\<close>

lemma runScheduler_fields:
  "eventSource (runScheduler s) = Some (streams_created s)"
  "streams_created s \<in> set (open_streams (runScheduler s))"
  "log_output (runScheduler s) = placeholder_text"
  "isFirstLog (runScheduler s)"
  "resultsSection_hidden (runScheduler s)"
  "\<not> logCardBody_minimized (runScheduler s)"
  "fullScheduleData (runScheduler s) = fullScheduleData s"
  by (simp_all add: runScheduler_def close_stream_def Let_def split: option.splits)

lemma handleLogMessage_fields:
  "eventSource (handleLogMessage line s) = eventSource s"
  "open_streams (handleLogMessage line s) = open_streams s"
  "streams_created (handleLogMessage line s) = streams_created s"
  "resultsSection_hidden (handleLogMessage line s) = resultsSection_hidden s"
  "logCardBody_minimized (handleLogMessage line s) = logCardBody_minimized s"
  "fullScheduleData (handleLogMessage line s) = fullScheduleData s"
  "\<not> isFirstLog (handleLogMessage line s)"
  "log_output (handleLogMessage line s) =
     (if isFirstLog s then [] else log_output s) @ line @ [CHR 0x0A]"
  by (simp_all add: handleLogMessage_def Let_def)

lemma displayResults_shows:
  "\<not> resultsSection_hidden (fst (displayResults data s))"
  "log_output (fst (displayResults data s)) = log_output s"
  by (simp_all add: displayResults_def applyTableFilters_def Let_def split: option.splits sum.splits)

lemma reset_then_close_fields:
  "log_output (reset_then_close s) = log_output s"
  "resultsSection_hidden (reset_then_close s) = resultsSection_hidden s"
  "fullScheduleData (reset_then_close s) = fullScheduleData s"
  "logCardBody_minimized (reset_then_close s) = logCardBody_minimized s"
  by (simp_all add: reset_then_close_def resetRunButton_def close_stream_def Let_def
      split: option.splits)

lemma close_then_reset_fields:
  "log_output (close_then_reset s) = log_output s"
  "resultsSection_hidden (close_then_reset s) = resultsSection_hidden s"
  "fullScheduleData (close_then_reset s) = fullScheduleData s"
  "logCardBody_minimized (close_then_reset s) = logCardBody_minimized s"
  by (simp_all add: close_then_reset_def resetRunButton_def close_stream_def split: option.splits)

lemma handleDoneEvent_success:
  assumes "status data = ''success''"
  shows "log_output (handleDoneEvent data s) = log_output s"
    and "\<not> resultsSection_hidden (handleDoneEvent data s)"
proof -
  obtain s1 r where d: "displayResults data (s\<lparr>fullScheduleData := payload data\<rparr>) = (s1, r)"
    by (cases "displayResults data (s\<lparr>fullScheduleData := payload data\<rparr>)")
  have "log_output s1 = log_output s" "\<not> resultsSection_hidden s1"
    using displayResults_shows[of data "s\<lparr>fullScheduleData := payload data\<rparr>"] d by simp_all
  then show "log_output (handleDoneEvent data s) = log_output s"
    "\<not> resultsSection_hidden (handleDoneEvent data s)"
    using assms d by (cases r; simp add: handleDoneEvent_def reset_then_close_fields)+
qed

text \<open>
  Claim C5. When a run is started and its stream delivers the lines \<open>a\<close> and \<open>b\<close> and
  then a terminal event whose status is success, the log holds exactly \<open>a\<close>, a line
  feed, \<open>b\<close>, a line feed (the first line has replaced the placeholder), and the results
  section is visible.
\<close>

theorem log_after_two_lines_and_success:
  assumes "status data = ''success''"
  shows "log_output (foldl admin_step (runScheduler s0)
            [LogMessage (streams_created s0) a, LogMessage (streams_created s0) b,
             Done (streams_created s0) data])
           = a @ [CHR 0x0A] @ b @ [CHR 0x0A]
       \<and> \<not> resultsSection_hidden (foldl admin_step (runScheduler s0)
            [LogMessage (streams_created s0) a, LogMessage (streams_created s0) b,
             Done (streams_created s0) data])"
  using assms
  by (simp add: runScheduler_fields handleLogMessage_fields handleDoneEvent_success)

theorem log_after_two_lines_and_success_witness:
  "log_output (foldl admin_step (runScheduler initAdminPage)
       [LogMessage 0 ''A'', LogMessage 0 ''B'',
        Done 0 \<lparr>status = ''success'', message = None, payload = None, final_scores = Some []\<rparr>])
     = [CHR ''A'', CHR 0x0A, CHR ''B'', CHR 0x0A]
   \<and> \<not> resultsSection_hidden (foldl admin_step (runScheduler initAdminPage)
       [LogMessage 0 ''A'', LogMessage 0 ''B'',
        Done 0 \<lparr>status = ''success'', message = None, payload = None, final_scores = Some []\<rparr>])"
  using log_after_two_lines_and_success[of
      "\<lparr>status = ''success'', message = None, payload = None, final_scores = Some []\<rparr>"
      initAdminPage "''A''" "''B''"]
  by (simp add: initAdminPage_def)

lemma log_lines_keep:
  fixes n :: nat and lines :: "string list"
  assumes "n \<in> set (open_streams s)"
  defines "s' \<equiv> foldl admin_step s (map (LogMessage n) lines)"
  shows "n \<in> set (open_streams s')" and "eventSource s' = eventSource s"
    and "resultsSection_hidden s' = resultsSection_hidden s"
    and "logCardBody_minimized s' = logCardBody_minimized s"
    and "fullScheduleData s' = fullScheduleData s"
proof -
  have "n \<in> set (open_streams s') \<and> eventSource s' = eventSource s
      \<and> resultsSection_hidden s' = resultsSection_hidden s
      \<and> logCardBody_minimized s' = logCardBody_minimized s
      \<and> fullScheduleData s' = fullScheduleData s"
    unfolding s'_def using assms(1)
    by (induction lines arbitrary: s) (simp_all add: handleLogMessage_fields)
  then show "n \<in> set (open_streams s')" "eventSource s' = eventSource s"
    "resultsSection_hidden s' = resultsSection_hidden s"
    "logCardBody_minimized s' = logCardBody_minimized s"
    "fullScheduleData s' = fullScheduleData s"
    by simp_all
qed

text \<open>
  Claim C6. When a run is started and its stream, after any number of log lines,
  delivers a terminal event whose status is not success and whose message is \<open>x\<close>, the
  text of the failure line ending in \<open>x\<close> is appended to the log, the results section
  stays hidden, the log stays expanded and the stored result is what it was before the
  run: the failed run stores nothing. The same holds, with the text of the connection
  failure, when the stream reports an error instead.
\<close>

theorem failed_run_appends_message_stores_nothing:
  fixes lines :: "string list" and s0 :: admin_page
  assumes "status data \<noteq> ''success''" "message data = Some x"
  defines "n \<equiv> streams_created s0"
  defines "s \<equiv> foldl admin_step (runScheduler s0) (map (LogMessage n) lines)"
  shows "log_output (admin_step s (Done n data)) = log_output s @ failed_text @ x
       \<and> resultsSection_hidden (admin_step s (Done n data))
       \<and> \<not> logCardBody_minimized (admin_step s (Done n data))
       \<and> fullScheduleData (admin_step s (Done n data)) = fullScheduleData s0
       \<and> log_output (admin_step s (StreamError n)) = log_output s @ disconnected_text
       \<and> resultsSection_hidden (admin_step s (StreamError n))
       \<and> \<not> logCardBody_minimized (admin_step s (StreamError n))
       \<and> fullScheduleData (admin_step s (StreamError n)) = fullScheduleData s0"
proof -
  have o: "n \<in> set (open_streams (runScheduler s0))"
    unfolding n_def by (simp add: runScheduler_fields)
  note k = log_lines_keep[OF o, of lines, folded s_def]
  have f: "resultsSection_hidden s" "\<not> logCardBody_minimized s" "fullScheduleData s = fullScheduleData s0"
    using k by (simp_all add: runScheduler_fields)
  show ?thesis
    using k(1) f assms(1,2)
    by (simp add: handleDoneEvent_def stream_onerror_def reset_then_close_fields
        close_then_reset_fields template_text_def)
qed

theorem failed_run_appends_message_stores_nothing_witness:
  "log_output (foldl admin_step (runScheduler initAdminPage)
      [LogMessage 0 ''A'',
       Done 0 \<lparr>status = ''error'', message = Some ''X'', payload = None, final_scores = None\<rparr>])
     = ''A'' @ [CHR 0x0A] @ failed_text @ ''X''
   \<and> resultsSection_hidden (foldl admin_step (runScheduler initAdminPage)
      [LogMessage 0 ''A'',
       Done 0 \<lparr>status = ''error'', message = Some ''X'', payload = None, final_scores = None\<rparr>])
   \<and> fullScheduleData (foldl admin_step (runScheduler initAdminPage)
      [LogMessage 0 ''A'',
       Done 0 \<lparr>status = ''error'', message = Some ''X'', payload = None, final_scores = None\<rparr>])
     = None
   \<and> log_output (foldl admin_step (runScheduler initAdminPage) [LogMessage 0 ''A'', StreamError 0])
     = ''A'' @ [CHR 0x0A] @ disconnected_text"
proof -
  have c: "streams_created initAdminPage = 0" by (simp add: initAdminPage_def)
  have o: "0 \<in> set (open_streams (runScheduler initAdminPage))"
    using runScheduler_fields(2)[of initAdminPage] by (simp only: c)
  have l: "log_output (handleLogMessage ''A'' (runScheduler initAdminPage)) = ''A'' @ [CHR 0x0A]"
    by (simp add: handleLogMessage_fields runScheduler_fields)
  have n: "fullScheduleData initAdminPage = None" by (simp add: initAdminPage_def)
  show ?thesis
    using failed_run_appends_message_stores_nothing[of
      "\<lparr>status = ''error'', message = Some ''X'', payload = None, final_scores = None\<rparr>" "''X''"
      initAdminPage "[''A'']", unfolded c]
    by (simp add: o l n)
qed

subsection \<open>One live stream\<close>

lemma streams_ok_close: "streams_ok s \<Longrightarrow> streams_ok (close_stream e s)"
  by (auto simp: streams_ok_def close_stream_def list_all_iff distinct_removeAll)

lemma streams_ok_reset: "streams_ok s \<Longrightarrow> streams_ok (resetRunButton s)"
  by (simp add: streams_ok_def resetRunButton_def)

lemma applyTableFilters_streams:
  "eventSource (fst (applyTableFilters s)) = eventSource s"
  "open_streams (fst (applyTableFilters s)) = open_streams s"
  "streams_created (fst (applyTableFilters s)) = streams_created s"
  by (simp_all add: applyTableFilters_def split: option.splits sum.splits)

lemma displayResults_streams:
  "eventSource (fst (displayResults data s)) = eventSource s"
  "open_streams (fst (displayResults data s)) = open_streams s"
  "streams_created (fst (displayResults data s)) = streams_created s"
  by (simp_all add: displayResults_def Let_def applyTableFilters_streams split: option.splits)

lemma streams_ok_cong:
  "eventSource s' = eventSource s \<Longrightarrow> open_streams s' = open_streams s \<Longrightarrow>
   streams_created s' = streams_created s \<Longrightarrow> streams_ok s' = streams_ok s"
  by (simp add: streams_ok_def)

lemma open_after_run:
  assumes "streams_ok s"
  shows "open_streams (runScheduler s) = [streams_created s]"
proof (cases "eventSource s")
  case None
  then have "open_streams s = []" using assms by (cases "open_streams s") (simp_all add: streams_ok_def)
  then show ?thesis using None by (simp add: runScheduler_def Let_def)
next
  case (Some e)
  have "set (open_streams s) \<subseteq> {e}" using assms Some by (auto simp: streams_ok_def list_all_iff)
  then have "removeAll e (open_streams s) = []"
    by (metis removeAll_id set_empty set_removeAll Diff_eq_empty_iff)
  then show ?thesis using Some by (simp add: runScheduler_def close_stream_def Let_def)
qed

lemma streams_ok_run: "streams_ok s \<Longrightarrow> streams_ok (runScheduler s)"
  using open_after_run[of s]
  by (simp add: streams_ok_def)
     (simp add: runScheduler_def close_stream_def Let_def split: option.splits)

lemma streams_ok_step: "streams_ok s \<Longrightarrow> streams_ok (admin_step s e)"
proof (cases e)
  case RunClick
  then show "streams_ok s \<Longrightarrow> ?thesis" by (simp add: streams_ok_run)
next
  case (LogMessage n line)
  then show "streams_ok s \<Longrightarrow> ?thesis"
    by (simp add: streams_ok_cong[of "handleLogMessage line s" s] handleLogMessage_fields)
next
  case (Done n data)
  obtain s1 r where d: "displayResults data (s\<lparr>fullScheduleData := payload data\<rparr>) = (s1, r)"
    by (cases "displayResults data (s\<lparr>fullScheduleData := payload data\<rparr>)")
  have s1: "streams_ok s1 = streams_ok s"
    using displayResults_streams[of data "s\<lparr>fullScheduleData := payload data\<rparr>"] d
    by (simp add: streams_ok_def)
  have rc: "streams_ok t \<Longrightarrow> streams_ok (reset_then_close t)" for t
    by (simp add: reset_then_close_def Let_def streams_ok_reset streams_ok_close split: option.splits)
  have "streams_ok s \<Longrightarrow> streams_ok (handleDoneEvent data s)"
  proof (cases "status data = ''success''")
    case True
    assume "streams_ok s"
    then have "streams_ok (s1\<lparr>logCardBody_minimized := True, toggleLogBtn_hidden := False\<rparr>)"
      using s1 by (simp add: streams_ok_def)
    then show ?thesis using True d s1 \<open>streams_ok s\<close> rc by (cases r) (simp_all add: handleDoneEvent_def)
  next
    case False
    assume "streams_ok s"
    then have "streams_ok (s\<lparr>log_output := log_output s @ failed_text @ template_text (message data)\<rparr>)"
      by (simp add: streams_ok_def)
    then show ?thesis using False rc by (simp add: handleDoneEvent_def)
  qed
  then show "streams_ok s \<Longrightarrow> ?thesis" using Done by simp
next
  case (StreamError n)
  have "streams_ok t \<Longrightarrow> streams_ok (close_then_reset t)" for t
    by (simp add: close_then_reset_def streams_ok_reset streams_ok_close split: option.splits)
  moreover have "streams_ok s \<Longrightarrow> streams_ok (s\<lparr>log_output := log_output s @ disconnected_text\<rparr>)"
    by (simp add: streams_ok_def)
  ultimately show "streams_ok s \<Longrightarrow> ?thesis" using StreamError by (simp add: stream_onerror_def)
next
  case (StatusReply reply)
  then show "streams_ok s \<Longrightarrow> ?thesis"
    by (simp add: updateSubmissionStatus_def streams_ok_def Let_def split: option.splits)
next
  case (ChooseMonth y m)
  then show "streams_ok s \<Longrightarrow> ?thesis" by (simp add: streams_ok_def)
next
  case ToggleLog
  then show "streams_ok s \<Longrightarrow> ?thesis" by (simp add: streams_ok_def)
next
  case (FilterChange area dateRange)
  then show "streams_ok s \<Longrightarrow> ?thesis"
    using streams_ok_cong[of "fst (applyTableFilters (s\<lparr>areaFilter := area, dateFilter := dateRange\<rparr>))" s]
    by (simp add: applyTableFilters_streams)
qed

lemma streams_ok_steps: "streams_ok s \<Longrightarrow> streams_ok (foldl admin_step s evs)"
  by (induction evs arbitrary: s) (simp_all add: streams_ok_step)

lemma fresh_page_ok: "fresh_page s \<Longrightarrow> streams_ok s"
  by (simp add: fresh_page_def streams_ok_def)

lemma step_opens_only_new:
  "set (open_streams (admin_step s e)) \<subseteq> insert (streams_created s) (set (open_streams s))
   \<and> streams_created s \<le> streams_created (admin_step s e)"
proof (cases e)
  case RunClick
  then show ?thesis
    by (auto simp: runScheduler_def close_stream_def Let_def split: option.splits)
next
  case (LogMessage n line)
  then show ?thesis by (auto simp: handleLogMessage_fields)
next
  case (Done n data)
  obtain s1 r where d: "displayResults data (s\<lparr>fullScheduleData := payload data\<rparr>) = (s1, r)"
    by (cases "displayResults data (s\<lparr>fullScheduleData := payload data\<rparr>)")
  have s1: "open_streams s1 = open_streams s" "streams_created s1 = streams_created s"
    using displayResults_streams[of data "s\<lparr>fullScheduleData := payload data\<rparr>"] d by simp_all
  have rc: "set (open_streams (reset_then_close t)) \<subseteq> set (open_streams t)
      \<and> streams_created (reset_then_close t) = streams_created t" for t
    by (auto simp: reset_then_close_def resetRunButton_def close_stream_def Let_def
        split: option.splits)
  show ?thesis
  proof (cases "status data = ''success''")
    case True
    show ?thesis
      using Done True d s1
        rc[of "s1\<lparr>logCardBody_minimized := True, toggleLogBtn_hidden := False\<rparr>"]
      by (cases r) (auto simp: handleDoneEvent_def)
  next
    case False
    show ?thesis
      using Done False
        rc[of "s\<lparr>log_output := log_output s @ failed_text @ template_text (message data)\<rparr>"]
      by (auto simp: handleDoneEvent_def)
  qed
next
  case (StreamError n)
  then show ?thesis
    by (auto simp: stream_onerror_def close_then_reset_def resetRunButton_def close_stream_def
        split: option.splits)
next
  case (StatusReply reply)
  then show ?thesis by (auto simp: updateSubmissionStatus_def Let_def split: option.splits)
next
  case (ChooseMonth y m)
  then show ?thesis by auto
next
  case ToggleLog
  then show ?thesis by auto
next
  case (FilterChange area dateRange)
  then show ?thesis by (auto simp: applyTableFilters_streams)
qed

lemma closed_stays_closed:
  assumes "old < streams_created s" "old \<notin> set (open_streams s)"
  shows "old \<notin> set (open_streams (foldl admin_step s evs))"
  using assms
proof (induction evs arbitrary: s)
  case Nil
  then show ?case by simp
next
  case (Cons e evs)
  have "old < streams_created (admin_step s e)" "old \<notin> set (open_streams (admin_step s e))"
    using step_opens_only_new[of s e] Cons.prems by auto
  then show ?case using Cons.IH by simp
qed

lemma streams_ok_length: "streams_ok s \<Longrightarrow> length (open_streams s) \<le> 1"
proof -
  assume a: "streams_ok s"
  show ?thesis
  proof (cases "open_streams s")
    case Nil
    then show ?thesis by simp
  next
    case (Cons x xs)
    then show ?thesis using a by (cases xs) (auto simp: streams_ok_def)
  qed
qed

text \<open>
  Claim C8. In every state the page reaches from its start, at most one stream is open.
  When a run is started there, \<^verbatim>\<open>runScheduler\<close> leaves exactly one stream open, the new
  one; every stream created before is closed from then on, whatever happens later, and a
  log line arriving from it changes nothing.
\<close>

theorem one_live_stream:
  fixes s0 :: admin_page and evs later :: "admin_event list"
  defines "s \<equiv> foldl admin_step s0 evs"
  assumes "fresh_page s0" "old < streams_created s"
  shows "length (open_streams s) \<le> 1
       \<and> open_streams (runScheduler s) = [streams_created s]
       \<and> old \<notin> set (open_streams (foldl admin_step (runScheduler s) later))
       \<and> admin_step (foldl admin_step (runScheduler s) later) (LogMessage old line)
           = foldl admin_step (runScheduler s) later"
proof -
  have ok: "streams_ok s" unfolding s_def using assms(2) by (simp add: fresh_page_ok streams_ok_steps)
  have o: "open_streams (runScheduler s) = [streams_created s]" using ok by (rule open_after_run)
  have "old < streams_created (runScheduler s)" "old \<notin> set (open_streams (runScheduler s))"
    using assms(3) unfolding o
    by (simp_all add: runScheduler_def close_stream_def Let_def split: option.splits)
  then have g: "old \<notin> set (open_streams (foldl admin_step (runScheduler s) later))"
    by (rule closed_stays_closed)
  show ?thesis using streams_ok_length[OF ok] o g by simp
qed

theorem one_live_stream_witness:
  "fresh_page initAdminPage
   \<and> 0 < streams_created (foldl admin_step initAdminPage
           [StatusReply (Some \<lparr>submissions = [(''A'', \<lparr>submission.days_off = [], submitted = True\<rparr>)],
                                schedule_response.holidays = []\<rparr>),
            RunClick, LogMessage 0 ''A''])
   \<and> open_streams (runScheduler (foldl admin_step initAdminPage
           [StatusReply (Some \<lparr>submissions = [(''A'', \<lparr>submission.days_off = [], submitted = True\<rparr>)],
                                schedule_response.holidays = []\<rparr>),
            RunClick, LogMessage 0 ''A''])) = [1]
   \<and> 0 \<notin> set (open_streams (foldl admin_step (runScheduler (foldl admin_step initAdminPage
           [StatusReply (Some \<lparr>submissions = [(''A'', \<lparr>submission.days_off = [], submitted = True\<rparr>)],
                                schedule_response.holidays = []\<rparr>),
            RunClick, LogMessage 0 ''A''])) [LogMessage 1 ''B'', LogMessage 0 ''late'']))"
proof -
  let ?evs = "[StatusReply (Some \<lparr>submissions = [(''A'', \<lparr>submission.days_off = [], submitted = True\<rparr>)],
                                schedule_response.holidays = []\<rparr>),
            RunClick, LogMessage 0 ''A'']"
  have f: "fresh_page initAdminPage" by (simp add: fresh_page_def initAdminPage_def)
  have c: "streams_created (foldl admin_step initAdminPage ?evs) = 1" by code_simp
  have p: "0 < streams_created (foldl admin_step initAdminPage ?evs)" unfolding c by simp
  note t = one_live_stream[OF f p, of "[LogMessage 1 ''B'', LogMessage 0 ''late'']" "''late''"]
  note t1 = t[THEN conjunct2, THEN conjunct1, unfolded c]
  note t2 = t[THEN conjunct2, THEN conjunct2, THEN conjunct1]
  show ?thesis by (intro conjI, rule f, rule p, rule t1, rule t2)
qed

subsection \<open>The cells of the results table\<close>

lemma for_each_Inr:
  "for_each f xs = Inr ys \<Longrightarrow> list_all2 (\<lambda>x y. f x = Inr y) xs ys"
  by (induction xs arbitrary: ys) (auto split: sum.splits)

lemma filter_doctors_subset:
  "filter_doctors area data ds = Inr r \<Longrightarrow> set r \<subseteq> set ds"
  by (induction ds arbitrary: r) (auto split: sum.splits option.splits if_splits)

lemma day_style_cases:
  "day_style y m data day = [] \<or> day_style y m data day = [''cell-holiday'']
   \<or> day_style y m data day = [''cell-weekend'']"
  by (simp add: day_style_def Let_def)

lemma render_cell_Inr:
  assumes "render_cell y m data doc day = Inr c"
  shows "textContent c =
           (if is_day_off data doc day then dayoff_text
            else case assigned_area data doc day of None \<Rightarrow> [] | Some a \<Rightarrow> a)"
    and "cell_classList c =
           day_style y m data day @
           (if is_day_off data doc day then [''cell-dayoff'']
            else case assigned_area data doc day of None \<Rightarrow> [] | Some a \<Rightarrow> [''cell-area-'' @ a])"
  using assms day_style_cases[of y m data day]
  by (auto simp: render_cell_def Let_def cl_add_checked_def cl_add_def
      split: if_splits option.splits sum.splits)

text \<open>
  When the table is rendered at all: with the area filter on \<^verbatim>\<open>all\<close> and no white space
  in an assigned area's name, no exception ends \<^verbatim>\<open>renderScheduleTable\<close>. An area name
  with a blank does end it.
\<close>

lemma for_each_total:
  "(\<And>x. x \<in> set xs \<Longrightarrow> \<exists>y. f x = Inr y) \<Longrightarrow> \<exists>ys. for_each f xs = Inr ys"
proof (induction xs)
  case Nil
  then show ?case by simp
next
  case (Cons x xs)
  obtain y where "f x = Inr y" using Cons.prems[of x] by auto
  moreover obtain ys where "for_each f xs = Inr ys" using Cons by auto
  ultimately show ?case by simp
qed

lemma filter_doctors_all: "filter_doctors ''all'' data ds = Inr ds"
  by (induction ds) simp_all

lemma render_cell_total:
  assumes "\<And>a. assigned_area data doc day = Some a \<Longrightarrow> \<not> list_ex ascii_whitespace a"
  shows "\<exists>c. render_cell y m data doc day = Inr c"
proof (cases "assigned_area data doc day")
  case None
  then show ?thesis by (simp add: render_cell_def Let_def)
next
  case (Some a)
  have "\<not> list_ex ascii_whitespace (''cell-area-'' @ a)"
    using assms[OF Some] by (simp add: ascii_whitespace_def)
  then show ?thesis using Some by (simp add: render_cell_def Let_def cl_add_checked_def)
qed

lemma renderScheduleTable_total:
  assumes "areaFilter s = ''all''"
    and "\<And>doc day a. assigned_area data doc day = Some a \<Longrightarrow> \<not> list_ex ascii_whitespace a"
  shows "\<exists>t. renderScheduleTable s data = Inr t"
proof -
  have cell: "\<exists>c. render_cell y m data doc day = Inr c" for y m doc day
    by (rule render_cell_total) (rule assms(2))
  have "\<exists>cells. for_each (render_cell y m data doc) days = Inr cells" for y m doc days
    by (intro for_each_total) (rule cell)
  then have "\<exists>row. render_row y m data days doc = Inr row" for y m doc days
    by (simp add: render_row_def split: sum.splits) (metis sum.exhaust sum.distinct(1) old.sum.inject(2))
  then obtain rows where
    "for_each (render_row (adminYear s) (adminMonth s) data
       [startDay (dateFilter s)..endDay (dateFilter s) data]) (doctors data) = Inr rows"
    using for_each_total[of "doctors data"
        "render_row (adminYear s) (adminMonth s) data [startDay (dateFilter s)..endDay (dateFilter s) data]"]
    by blast
  then show ?thesis
    using assms(1) by (simp add: renderScheduleTable_def filter_doctors_all Let_def)
qed

lemma render_cell_blank_in_area:
  "render_cell 2025 1 (example_schedule\<lparr>schedule := [''A'' \<mapsto> [3 \<mapsto> ''Ward 1'']]\<rparr>) ''A'' 3
     = Inl InvalidCharacterError"
  by code_simp

text \<open>
  Claim C9, as stated, fails: the holiday or weekend style does not replace the area
  label, and the day-off mark does not replace the style. In the example, doctor B's cell
  for the holiday 1 January shows the area ICU and carries both classes; doctor A's cell
  for the same day shows the day-off mark and carries both classes.
\<close>

theorem classification_by_precedence_counterexample:
  "render_cell 2025 1 example_schedule ''B'' 1
     = Inr \<lparr>textContent = ''ICU'', cell_classList = [''cell-holiday'', ''cell-area-ICU'']\<rparr>
   \<and> cell_by_precedence 2025 1 example_schedule ''B'' 1
     = \<lparr>textContent = [], cell_classList = [''cell-holiday'']\<rparr>
   \<and> render_cell 2025 1 example_schedule ''A'' 1
     = Inr \<lparr>textContent = dayoff_text, cell_classList = [''cell-holiday'', ''cell-dayoff'']\<rparr>
   \<and> cell_by_precedence 2025 1 example_schedule ''A'' 1
     = \<lparr>textContent = dayoff_text, cell_classList = [''cell-dayoff'']\<rparr>
   \<and> map_sum id (\<lambda>t. body t ! 1 ! 1)
        (renderScheduleTable (initAdminPage\<lparr>dateFilter := ''1-10''\<rparr>) example_schedule)
     = Inr \<lparr>textContent = ''ICU'', cell_classList = [''cell-holiday'', ''cell-area-ICU'']\<rparr>"
  by code_simp

text \<open>
  Claim C9, amended. In a rendered results table, the row \<open>r\<close> belongs to a doctor of the
  result and its cell for the day of column \<open>i\<close> is made of two independent choices. Its
  style class is that of a holiday when the day is one, otherwise that of a weekend when
  the day is a Saturday or a Sunday, otherwise none. Its content is the day-off mark, with
  the day-off class, when the doctor has the day off; otherwise the assigned area, with
  the class of that area, when one is assigned; otherwise nothing. So a cell shows exactly
  one of day-off mark, area label and blank, and the style class comes in addition.
\<close>

theorem table_cell_style_and_content:
  assumes "renderScheduleTable s data = Inr t" "r < length (body t)" "i < length (head_days t)"
  shows "\<exists>doc \<in> set (doctors data).
           textContent (body t ! r ! 0) = doc
         \<and> textContent (body t ! r ! Suc i) =
             (if is_day_off data doc (head_days t ! i) then dayoff_text
              else case assigned_area data doc (head_days t ! i) of None \<Rightarrow> [] | Some a \<Rightarrow> a)
         \<and> cell_classList (body t ! r ! Suc i) =
             day_style (adminYear s) (adminMonth s) data (head_days t ! i) @
             (if is_day_off data doc (head_days t ! i) then [''cell-dayoff'']
              else case assigned_area data doc (head_days t ! i) of
                     None \<Rightarrow> []
                   | Some a \<Rightarrow> [''cell-area-'' @ a])"
proof -
  define days where "days = [startDay (dateFilter s)..endDay (dateFilter s) data]"
  obtain fd where fd: "filter_doctors (areaFilter s) data (doctors data) = Inr fd"
    using assms(1) by (auto simp: renderScheduleTable_def Let_def split: sum.splits)
  then obtain rows where rows:
    "for_each (render_row (adminYear s) (adminMonth s) data days) fd = Inr rows"
    using assms(1) by (auto simp: renderScheduleTable_def Let_def days_def split: sum.splits)
  have t: "head_days t = days" "body t = rows"
    using assms(1) fd rows by (auto simp: renderScheduleTable_def Let_def days_def)
  have l2: "list_all2 (\<lambda>x y. render_row (adminYear s) (adminMonth s) data days x = Inr y) fd rows"
    using rows by (rule for_each_Inr)
  then have rl: "r < length fd" using assms(2) t by (simp add: list_all2_lengthD)
  define doc where "doc = fd ! r"
  have doc: "doc \<in> set (doctors data)"
    using filter_doctors_subset[OF fd] rl by (auto simp: doc_def)
  have row: "render_row (adminYear s) (adminMonth s) data days doc = Inr (rows ! r)"
    using l2 rl by (simp add: list_all2_conv_all_nth doc_def)
  then obtain cells where cells:
    "for_each (render_cell (adminYear s) (adminMonth s) data doc) days = Inr cells"
    "rows ! r = \<lparr>textContent = doc, cell_classList = []\<rparr> # cells"
    by (auto simp: render_row_def split: sum.splits)
  have "list_all2 (\<lambda>x y. render_cell (adminYear s) (adminMonth s) data doc x = Inr y) days cells"
    using cells(1) by (rule for_each_Inr)
  moreover have "i < length days" using assms(3) t by simp
  ultimately have c: "render_cell (adminYear s) (adminMonth s) data doc (days ! i) = Inr (cells ! i)"
    by (rule list_all2_nthD)
  show ?thesis
    using doc render_cell_Inr[OF c] unfolding t cells(2) by (intro bexI[of _ doc]) simp_all
qed

theorem table_cell_style_and_content_witness:
  "(case renderScheduleTable (initAdminPage\<lparr>dateFilter := ''1-10''\<rparr>) example_schedule of
      Inl e \<Rightarrow> False
    | Inr t \<Rightarrow>
        1 < length (body t) \<and> 0 < length (head_days t) \<and> head_days t ! 0 = 1
        \<and> textContent (body t ! 1 ! Suc 0) = ''ICU''
        \<and> cell_classList (body t ! 1 ! Suc 0) = [''cell-holiday'', ''cell-area-ICU''])"
proof -
  have e: "case renderScheduleTable (initAdminPage\<lparr>dateFilter := ''1-10''\<rparr>) example_schedule of
      Inl e \<Rightarrow> False
    | Inr t \<Rightarrow> 1 < length (body t) \<and> 0 < length (head_days t) \<and> head_days t ! 0 = 1
        \<and> textContent (body t ! 1 ! 0) = ''B''"
    by code_simp
  then obtain t where t:
    "renderScheduleTable (initAdminPage\<lparr>dateFilter := ''1-10''\<rparr>) example_schedule = Inr t"
    "1 < length (body t)" "0 < length (head_days t)" "head_days t ! 0 = 1"
    "textContent (body t ! 1 ! 0) = ''B''"
    by (auto split: sum.splits)
  have v: "is_day_off example_schedule ''B'' 1 = False"
    "assigned_area example_schedule ''B'' 1 = Some ''ICU''"
    "day_style 2025 1 example_schedule 1 = [''cell-holiday'']"
    by code_simp+
  have y: "adminYear (initAdminPage\<lparr>dateFilter := ''1-10''\<rparr>) = 2025"
    "adminMonth (initAdminPage\<lparr>dateFilter := ''1-10''\<rparr>) = 1"
    by (simp_all add: initAdminPage_def)
  obtain doc where "textContent (body t ! 1 ! 0) = doc"
    "textContent (body t ! 1 ! Suc 0) =
       (if is_day_off example_schedule doc 1 then dayoff_text
        else case assigned_area example_schedule doc 1 of None \<Rightarrow> [] | Some a \<Rightarrow> a)"
    "cell_classList (body t ! 1 ! Suc 0) =
       day_style 2025 1 example_schedule 1 @
       (if is_day_off example_schedule doc 1 then [''cell-dayoff'']
        else case assigned_area example_schedule doc 1 of None \<Rightarrow> [] | Some a \<Rightarrow> [''cell-area-'' @ a])"
    using table_cell_style_and_content[OF t(1,2,3)] unfolding t(4) y by blast
  then show ?thesis using t v by simp
qed

end
